theory Spec2Isabelle
  imports Main "HOL-Library.Word"
begin

section \<open>C strings and fixed-size character arrays\<close>

text \<open>
  A \<open>const char*\<close> argument is a \<open>string option\<close>: \<open>None\<close> is the NULL pointer,
  \<open>Some cs\<close> points at the characters \<open>cs\<close> that precede the terminator. A
  \<open>char f[B]\<close> member is a \<open>char list\<close> of length \<open>B\<close> that holds every byte
  of the array, terminators included.
\<close>

definition NUL :: char where
  "NUL = CHR 0x00"

text \<open>\<open>strlen\<close> of a pointer argument: the number of characters before the terminator.\<close>

definition strlen :: "string \<Rightarrow> nat" where
  "strlen cs = length cs"

text \<open>
  \<open>strncpy(dst, src, n)\<close>: the first \<open>n\<close> bytes of \<open>dst\<close> become the characters
  of \<open>src\<close>, padded with NUL when \<open>src\<close> is shorter than \<open>n\<close>; no terminator is written
  when \<open>src\<close> has \<open>n\<close> characters or more. Bytes of \<open>dst\<close> from \<open>n\<close> on are kept.
  The result is longer than \<open>dst\<close> exactly when \<open>n\<close> exceeds the array (a write past it).
\<close>

definition strncpy :: "char list \<Rightarrow> string \<Rightarrow> nat \<Rightarrow> char list" where
  "strncpy dst src n = take n (src @ replicate (n - length src) NUL) @ drop n dst"

text \<open>
  The count every field copy of \<open>SL_AddLogEntry\<close> passes to \<open>strncpy\<close>:
  \<open>(strlen(x) < (LENGTH - 1)) ? strlen(x) : LENGTH\<close>.
\<close>

definition copy_count :: "string \<Rightarrow> nat \<Rightarrow> nat" where
  "copy_count src bound = (if strlen src < bound - 1 then strlen src else bound)"

text \<open>Whether an array holds a terminator.\<close>

definition terminated :: "char list \<Rightarrow> bool" where
  "terminated f = (NUL \<in> set f)"

text \<open>
  Bytes written from the first byte of an array on: \<open>over bytes f\<close> is the array
  after the write, \<open>past bytes f\<close> are the bytes that land behind its end.
\<close>

definition over :: "char list \<Rightarrow> char list \<Rightarrow> char list" where
  "over bytes f = take (length f) (bytes @ drop (length bytes) f)"

definition past :: "char list \<Rightarrow> char list \<Rightarrow> char list" where
  "past bytes f = drop (length f) bytes"

section \<open>Constants of the logger\<close>

definition SL_RESULT_SUCCESS :: int where "SL_RESULT_SUCCESS = 0"
definition SL_RESULT_RESERVED_START :: int where "SL_RESULT_RESERVED_START = - 1"
definition SL_RESULT_NOT_INITIALIZED :: int where
  "SL_RESULT_NOT_INITIALIZED = SL_RESULT_RESERVED_START - 1"
definition SL_RESULT_ALREADY_INITIALIZED :: int where
  "SL_RESULT_ALREADY_INITIALIZED = SL_RESULT_RESERVED_START - 2"
definition SL_RESULT_RESERVED_END :: int where "SL_RESULT_RESERVED_END = - 31"

text \<open>The two \<open>errno.h\<close> codes the logger returns, with their Linux values.\<close>

definition EFAULT :: int where "EFAULT = 14"
definition EINVAL :: int where "EINVAL = 22"

definition eSL_LogLevel_Diagnostic :: int where "eSL_LogLevel_Diagnostic = 0"
definition eSL_LogLevel_Detail :: int where "eSL_LogLevel_Detail = 1"
definition eSL_LogLevel_Info :: int where "eSL_LogLevel_Info = 2"
definition eSL_LogLevel_Warning :: int where "eSL_LogLevel_Warning = 3"
definition eSL_LogLevel_Error :: int where "eSL_LogLevel_Error = 4"
definition eSL_LogLevel_None :: int where "eSL_LogLevel_None = 5"

definition SL_TIMESTAMP_STRING_LENGTH :: nat where "SL_TIMESTAMP_STRING_LENGTH = 32"
definition SL_MESSAGE_STRING_LENGTH :: nat where "SL_MESSAGE_STRING_LENGTH = 1024"
definition SL_LEVEL_STRING_LENGTH :: nat where "SL_LEVEL_STRING_LENGTH = 16"
definition SL_FILE_NAME_STRING_LENGTH :: nat where "SL_FILE_NAME_STRING_LENGTH = 256"
definition SL_FUNCTION_NAME_STRING_LENGTH :: nat where "SL_FUNCTION_NAME_STRING_LENGTH = 256"
definition SL_TAG_STRING_LENGTH :: nat where "SL_TAG_STRING_LENGTH = 128"
definition SL_SUPPLEMENTAL_DATA_STRING_LENGTH :: nat where
  "SL_SUPPLEMENTAL_DATA_STRING_LENGTH = 1024"

definition kSL_DiagnosticLevelString :: string where "kSL_DiagnosticLevelString = ''Diagnostic''"
definition kSL_DetailLevelString :: string where "kSL_DetailLevelString = ''Detail''"
definition kSL_InfoLevelString :: string where "kSL_InfoLevelString = ''Info''"
definition kSL_WarningLevelString :: string where "kSL_WarningLevelString = ''Warning''"
definition kSL_ErrorLevelString :: string where "kSL_ErrorLevelString = ''Error''"
definition kSL_NoneLevelString :: string where "kSL_NoneLevelString = ''None''"

definition kSL_ResultStrings :: "string list" where
  "kSL_ResultStrings =
     ['''', ''Unknown error code'', ''Not initialized'', ''Already initialized'']"

section \<open>Result strings\<close>

datatype c_fault = OutOfBoundsRead nat

text \<open>
  \<open>SL_Result_String\<close>. The C library's \<open>strerror\<close> is a parameter. The index
  \<open>(uint32_t)(-1.0 * resultCode)\<close> is exact for every 32-bit code, so it is the natural
  number \<open>- resultCode\<close>. The table has four elements; an index beyond it reads past
  the array, which is the \<open>Inl\<close> result.
\<close>

definition SL_Result_String :: "(int \<Rightarrow> string) \<Rightarrow> int \<Rightarrow> c_fault + string" where
  "SL_Result_String strerror resultCode =
     (if resultCode > SL_RESULT_SUCCESS then Inr (strerror resultCode)
      else if resultCode \<le> SL_RESULT_RESERVED_START \<and> resultCode \<ge> SL_RESULT_RESERVED_END
      then (let index = nat (- resultCode)
            in if index < length kSL_ResultStrings then Inr (kSL_ResultStrings ! index)
               else Inl (OutOfBoundsRead index))
      else Inr (kSL_ResultStrings ! 0))"

section \<open>Log entries\<close>

record tSL_LogEntry =
  timestamp :: "char list"
  message :: "char list"
  level :: "char list"
  fileName :: "char list"
  functionName :: "char list"
  lineNumber :: "32 word"
  tag :: "char list"
  supplementalData :: "char list"

text \<open>One slot after \<open>memset(gLogEntries, 0, ...)\<close>.\<close>

definition zero_entry :: tSL_LogEntry where
  "zero_entry =
     \<lparr> timestamp = replicate SL_TIMESTAMP_STRING_LENGTH NUL,
       message = replicate SL_MESSAGE_STRING_LENGTH NUL,
       level = replicate SL_LEVEL_STRING_LENGTH NUL,
       fileName = replicate SL_FILE_NAME_STRING_LENGTH NUL,
       functionName = replicate SL_FUNCTION_NAME_STRING_LENGTH NUL,
       lineNumber = 0,
       tag = replicate SL_TAG_STRING_LENGTH NUL,
       supplementalData = replicate SL_SUPPLEMENTAL_DATA_STRING_LENGTH NUL \<rparr>"

text \<open>
  \<open>SL_GetTimestamp\<close> writes the local time and a terminator from the pointer it is
  given on, with \<open>strftime\<close>, \<open>sprintf\<close> and \<open>strcat\<close>, none of which knows
  the 32 bytes of the array behind the pointer. The clock is outside the program: the
  text it yields on a call is the argument \<open>now\<close>. The two \<open>strftime\<close> calls are
  given the size 32 and \<open>sprintf\<close> writes 8 characters, so the text has at most
  \<open>31 + 8 + 31 = 70\<close> characters. The result is the bytes written from the pointer on.
\<close>

definition clock_text :: "string \<Rightarrow> string" where
  "clock_text now = take 70 now"

definition SL_GetTimestamp :: "string \<Rightarrow> char list" where
  "SL_GetTimestamp now = clock_text now @ [NUL]"

text \<open>The copy of one optional field: nothing is written for a NULL pointer.\<close>

definition copy_field :: "char list \<Rightarrow> string option \<Rightarrow> nat \<Rightarrow> char list" where
  "copy_field dst src bound =
     (case src of None \<Rightarrow> dst | Some cs \<Rightarrow> strncpy dst cs (copy_count cs bound))"

definition level_string :: "int \<Rightarrow> string" where
  "level_string lvl =
     (if lvl = eSL_LogLevel_Diagnostic then kSL_DiagnosticLevelString
      else if lvl = eSL_LogLevel_Detail then kSL_DetailLevelString
      else if lvl = eSL_LogLevel_Info then kSL_InfoLevelString
      else if lvl = eSL_LogLevel_Warning then kSL_WarningLevelString
      else if lvl = eSL_LogLevel_Error then kSL_ErrorLevelString
      else kSL_NoneLevelString)"

text \<open>
  What \<open>SL_AddLogEntry\<close> does to the slot \<open>gLogEntries[gLogEntryCount]\<close>, field by
  field in the order of the source. The member \<open>message\<close> follows \<open>timestamp\<close>
  in the entry: a time text of 32 characters or more fills \<open>timestamp\<close> without a
  terminator and goes on into the first bytes of \<open>message\<close>, before the message is
  copied over them.
\<close>

definition fill_entry ::
  "string \<Rightarrow> string \<Rightarrow> int \<Rightarrow> string option \<Rightarrow> string option \<Rightarrow> 32 word \<Rightarrow>
   string option \<Rightarrow> string option \<Rightarrow> tSL_LogEntry \<Rightarrow> tSL_LogEntry" where
  "fill_entry now msg lvl fileNm functionNm lineNo tg suppl e =
     e \<lparr> timestamp := over (SL_GetTimestamp now) (timestamp e),
         message := strncpy (over (past (SL_GetTimestamp now) (timestamp e)) (message e)) msg
                      (copy_count msg SL_MESSAGE_STRING_LENGTH),
         level := strncpy (level e) (level_string lvl)
                    (copy_count (level_string lvl) SL_LEVEL_STRING_LENGTH),
         fileName := copy_field (fileName e) fileNm SL_FILE_NAME_STRING_LENGTH,
         functionName := copy_field (functionName e) functionNm SL_FUNCTION_NAME_STRING_LENGTH,
         lineNumber := lineNo,
         tag := copy_field (tag e) tg SL_TAG_STRING_LENGTH,
         supplementalData := copy_field (supplementalData e) suppl
                               SL_SUPPLEMENTAL_DATA_STRING_LENGTH \<rparr>"

section \<open>The store behind the logger\<close>

text \<open>
  The SQLite engine is an external collaborator. The model keeps what the logger can
  observe of it: the rows inserted with the logger's insert statement, which within a
  session are the rows of the session's log table in ascending \<open>log_id\<close> order,
  the rows inserted by an open transaction, the parameters bound to the insert statement,
  and the sequence of API calls made so far. Which result code a call returns is decided
  outside the program: \<open>faults\<close> lists the codes of the coming calls whose result the
  logger reads, one per call, \<open>SQLITE_OK\<close> meaning that the call goes through; when
  the list is used up every call goes through. A call that returns an error code leaves
  the data of the store as it was.
\<close>

definition SQLITE_OK :: int where "SQLITE_OK = 0"
definition SQLITE_ERROR :: int where "SQLITE_ERROR = 1"
definition SQLITE_NOMEM :: int where "SQLITE_NOMEM = 7"
definition SQLITE_MISUSE :: int where "SQLITE_MISUSE = 21"
definition SQLITE_DONE :: int where "SQLITE_DONE = 101"

text \<open>
  A column value. \<open>SqlRunOn\<close> is a text whose first characters are known and that
  goes on with bytes the model does not lay out.
\<close>

datatype sql_value = SqlNull | SqlText string | SqlInt int | SqlRunOn string

text \<open>
  The text that \<open>strlen\<close> and SQLite read from a member of an entry: the bytes from
  the first byte of the member up to the first terminator, wherever that one lies. A
  member that holds no terminator makes the read go on into the members behind it; the
  \<open>char\<close> arrays of the entry follow each other without padding. \<open>read_on\<close> is
  given the member and the \<open>char\<close> arrays that follow it up to the line number or
  to the end of the entry. When none of them holds a terminator the read goes on into
  the line number or into the next slot, and the value is \<open>SqlRunOn\<close> of the bytes
  read so far.
\<close>

definition read_on :: "char list list \<Rightarrow> sql_value" where
  "read_on members =
     (let bytes = concat members
      in if NUL \<in> set bytes then SqlText (takeWhile (\<lambda>c. c \<noteq> NUL) bytes)
         else SqlRunOn bytes)"

datatype sqlite_call =
    OpenV2 | CloseV2 | PrepareV2 | Finalize | StepSchema | StepInsert | Reset
  | BindText nat | BindInt nat | ExecBegin | ExecEnd | ExecRollback

record sqlite3 =
  table_rows :: "sql_value list list"
  txn_rows :: "sql_value list list"
  txn_open :: bool
  bindings :: "nat \<Rightarrow> sql_value"
  faults :: "int list"
  trace :: "sqlite_call list"

text \<open>A call whose result the logger reads: it is recorded and takes the next code.\<close>

definition called :: "sqlite_call \<Rightarrow> sqlite3 \<Rightarrow> int \<times> sqlite3" where
  "called c db =
     ((case faults db of [] \<Rightarrow> SQLITE_OK | f # _ \<Rightarrow> f),
      db \<lparr> faults := tl (faults db), trace := trace db @ [c] \<rparr>)"

text \<open>A call whose result the logger discards with \<open>(void)\<close>: it is only recorded.\<close>

definition called_void :: "sqlite_call \<Rightarrow> sqlite3 \<Rightarrow> sqlite3" where
  "called_void c db = db \<lparr> trace := trace db @ [c] \<rparr>"

text \<open>
  \<open>sqlite3_open_v2\<close>: the second component tells whether a handle was written to
  \<open>gSQLiteDatabase\<close>; SQLite returns one even on failure, except when it is out of
  memory. A connection that has just been opened has no transaction.
\<close>

definition sqlite3_open_v2 :: "sqlite3 \<Rightarrow> int \<times> bool \<times> sqlite3" where
  "sqlite3_open_v2 db =
     (case called OpenV2 db of (f, db') \<Rightarrow>
        if f \<noteq> SQLITE_OK then (f, f \<noteq> SQLITE_NOMEM, db')
        else (SQLITE_OK, True, db' \<lparr> txn_rows := [], txn_open := False \<rparr>))"

definition sqlite3_close_v2 :: "sqlite3 \<Rightarrow> sqlite3" where
  "sqlite3_close_v2 db = (called_void CloseV2 db) \<lparr> txn_rows := [], txn_open := False \<rparr>"

definition sqlite3_prepare_v2 :: "sqlite3 \<Rightarrow> int \<times> sqlite3" where
  "sqlite3_prepare_v2 db = called PrepareV2 db"

definition sqlite3_finalize :: "sqlite3 \<Rightarrow> sqlite3" where
  "sqlite3_finalize db = called_void Finalize db"

text \<open>\<open>sqlite3_step\<close> on a schema statement (CREATE TABLE, CREATE VIEW).\<close>

definition sqlite3_step_schema :: "sqlite3 \<Rightarrow> int \<times> sqlite3" where
  "sqlite3_step_schema db =
     (case called StepSchema db of (f, db') \<Rightarrow>
        if f = SQLITE_OK \<or> f = SQLITE_DONE then (SQLITE_DONE, db') else (f, db'))"

text \<open>
  \<open>sqlite3_exec\<close> of BEGIN TRANSACTION, END TRANSACTION and ROLLBACK. SQLite refuses a
  BEGIN inside a transaction and an END outside one. A transaction starts with no row
  of its own. ROLLBACK ends the transaction; its result is discarded by the logger.
\<close>

definition sqlite3_exec_begin :: "sqlite3 \<Rightarrow> int \<times> sqlite3" where
  "sqlite3_exec_begin db =
     (case called ExecBegin db of (f, db') \<Rightarrow>
        if f \<noteq> SQLITE_OK then (f, db')
        else if txn_open db' then (SQLITE_ERROR, db')
        else (SQLITE_OK, db' \<lparr> txn_rows := [], txn_open := True \<rparr>))"

definition sqlite3_exec_end :: "sqlite3 \<Rightarrow> int \<times> sqlite3" where
  "sqlite3_exec_end db =
     (case called ExecEnd db of (f, db') \<Rightarrow>
        if f \<noteq> SQLITE_OK then (f, db')
        else if \<not> txn_open db' then (SQLITE_ERROR, db')
        else (SQLITE_OK, db' \<lparr> table_rows := table_rows db' @ txn_rows db',
                                txn_rows := [], txn_open := False \<rparr>))"

definition sqlite3_exec_rollback :: "sqlite3 \<Rightarrow> sqlite3" where
  "sqlite3_exec_rollback db = (called_void ExecRollback db) \<lparr> txn_rows := [], txn_open := False \<rparr>"

text \<open>
  Calls on the insert statement. \<open>stmt\<close> tells whether \<open>gInsertStatement\<close> is a
  statement; on a NULL statement SQLite returns \<open>SQLITE_MISUSE\<close>. The argument
  \<open>txt\<close> of \<open>sqlite3_bind_text\<close> is the text found at the pointer, with the length
  that the caller took with \<open>strlen\<close>.
\<close>

definition sqlite3_bind_text :: "bool \<Rightarrow> nat \<Rightarrow> sql_value \<Rightarrow> sqlite3 \<Rightarrow> int \<times> sqlite3" where
  "sqlite3_bind_text stmt idx txt db =
     (case called (BindText idx) db of (f, db') \<Rightarrow>
        if \<not> stmt then (SQLITE_MISUSE, db')
        else if f \<noteq> SQLITE_OK then (f, db')
        else (SQLITE_OK, db' \<lparr> bindings := (bindings db') (idx := txt) \<rparr>))"

definition sqlite3_bind_int :: "bool \<Rightarrow> nat \<Rightarrow> int \<Rightarrow> sqlite3 \<Rightarrow> int \<times> sqlite3" where
  "sqlite3_bind_int stmt idx i db =
     (case called (BindInt idx) db of (f, db') \<Rightarrow>
        if \<not> stmt then (SQLITE_MISUSE, db')
        else if f \<noteq> SQLITE_OK then (f, db')
        else (SQLITE_OK, db' \<lparr> bindings := (bindings db') (idx := SqlInt i) \<rparr>))"

text \<open>
  \<open>sqlite3_step\<close> on the insert statement: the eight bound parameters become one new
  row, held by the open transaction, or stored at once when there is none.
\<close>

definition bound_row :: "sqlite3 \<Rightarrow> sql_value list" where
  "bound_row db =
     [bindings db 1, bindings db 2, bindings db 3, bindings db 4,
      bindings db 5, bindings db 6, bindings db 7, bindings db 8]"

definition sqlite3_step_insert :: "bool \<Rightarrow> sqlite3 \<Rightarrow> int \<times> sqlite3" where
  "sqlite3_step_insert stmt db =
     (case called StepInsert db of (f, db') \<Rightarrow>
        if \<not> stmt then (SQLITE_MISUSE, db')
        else if f \<noteq> SQLITE_OK \<and> f \<noteq> SQLITE_DONE then (f, db')
        else (SQLITE_DONE,
              if txn_open db'
              then db' \<lparr> txn_rows := txn_rows db' @ [bound_row db'] \<rparr>
              else db' \<lparr> table_rows := table_rows db' @ [bound_row db'] \<rparr>))"

definition sqlite3_reset :: "sqlite3 \<Rightarrow> int \<times> sqlite3" where
  "sqlite3_reset db = called Reset db"

section \<open>The session\<close>

text \<open>
  The file-scope variables of \<open>sqlite_logger.c\<close>, and the store. A pointer variable is
  a \<open>bool\<close>: \<open>False\<close> is NULL. \<open>behind_gLogTimestamp\<close> is no variable of the
  source: it keeps the bytes that the last start-up wrote behind the 32 bytes of
  \<open>gLogTimestamp\<close>, into memory whose content C does not define; it is empty as long
  as every time text of a start-up has at most 31 characters. \<open>SL_LOG_ENTRY_CACHE_SIZE\<close> comes from the
  configuration header and is the parameter \<open>N\<close> of the operations; it is at least 1,
  and \<open>gLogEntries\<close> has \<open>N\<close> elements. \<open>gLogEntryCount\<close> is a \<open>uint32_t\<close>
  that the code never lets grow beyond \<open>N\<close>, so it is a \<open>nat\<close> here.
\<close>

record sl_state =
  gSQLiteDatabase :: bool
  gInsertStatement :: bool
  gLogLevel :: int
  gLogEntries :: "tSL_LogEntry list"
  gLogEntryCount :: nat
  gLogTimestamp :: "char list"
  behind_gLogTimestamp :: "char list"
  sqlite :: sqlite3

text \<open>The variables as their initialisers leave them at program start.\<close>

definition initial_state :: "nat \<Rightarrow> sqlite3 \<Rightarrow> sl_state" where
  "initial_state N db =
     \<lparr> gSQLiteDatabase = False, gInsertStatement = False, gLogLevel = eSL_LogLevel_Info,
       gLogEntries = replicate N zero_entry, gLogEntryCount = 0,
       gLogTimestamp = replicate SL_TIMESTAMP_STRING_LENGTH NUL, behind_gLogTimestamp = [],
       sqlite = db \<rparr>"

text \<open>An empty store on which every call goes through.\<close>

definition empty_store :: sqlite3 where
  "empty_store =
     \<lparr> table_rows = [], txn_rows = [], txn_open = False, bindings = (\<lambda>_. SqlNull),
       faults = [], trace = [] \<rparr>"

text \<open>\<open>memset((void*)gLogEntries, 0, sizeof(tSL_LogEntry) * SL_LOG_ENTRY_CACHE_SIZE)\<close>.\<close>

definition memset_entries :: "nat \<Rightarrow> sl_state \<Rightarrow> sl_state" where
  "memset_entries N s = s \<lparr> gLogEntries := replicate N zero_entry \<rparr>"

text \<open>\<open>if (result == SQLITE_OK) result = next call\<close>, the chaining used all over the source.\<close>

definition when_ok :: "int \<times> 'a \<Rightarrow> ('a \<Rightarrow> int \<times> 'a) \<Rightarrow> int \<times> 'a" where
  "when_ok r f = (if fst r = SQLITE_OK then f (snd r) else r)"

text \<open>\<open>if (result == SQLITE_DONE) result = SQLITE_OK\<close>.\<close>

definition eat_done :: "int \<times> 'a \<Rightarrow> int \<times> 'a" where
  "eat_done r = (if fst r = SQLITE_DONE then (SQLITE_OK, snd r) else r)"

text \<open>
  \<open>SL_CreateTable\<close> takes the time into \<open>gLogTimestamp\<close>, an array of 32 bytes.
  The bytes of a longer text land behind the variable.
\<close>

definition SL_CreateTable :: "string \<Rightarrow> sl_state \<Rightarrow> int \<times> sl_state" where
  "SL_CreateTable now s =
     (let s1 = s \<lparr> gLogTimestamp := over (SL_GetTimestamp now) (gLogTimestamp s),
                    behind_gLogTimestamp := past (SL_GetTimestamp now) (gLogTimestamp s) \<rparr>
      in case sqlite3_prepare_v2 (sqlite s1) of (result, db1) \<Rightarrow>
           if result = SQLITE_OK
           then (case eat_done (sqlite3_step_schema db1) of (result, db2) \<Rightarrow>
                   (result, s1 \<lparr> sqlite := sqlite3_finalize db2 \<rparr>))
           else (result, s1 \<lparr> sqlite := db1 \<rparr>))"

definition SL_CreateView :: "sl_state \<Rightarrow> int \<times> sl_state" where
  "SL_CreateView s =
     (case sqlite3_prepare_v2 (sqlite s) of (result, db1) \<Rightarrow>
        if result = SQLITE_OK
        then (case eat_done (sqlite3_step_schema db1) of (result, db2) \<Rightarrow>
                (result, s \<lparr> sqlite := sqlite3_finalize db2 \<rparr>))
        else (result, s \<lparr> sqlite := db1 \<rparr>))"

text \<open>
  \<open>SL_AddLogEntry\<close>: the slot at \<open>gLogEntryCount\<close> is filled and the count bumped.
  Every caller passes a non-NULL message.
\<close>

definition SL_AddLogEntry ::
  "string \<Rightarrow> string \<Rightarrow> int \<Rightarrow> string option \<Rightarrow> string option \<Rightarrow> 32 word \<Rightarrow>
   string option \<Rightarrow> string option \<Rightarrow> sl_state \<Rightarrow> int \<times> sl_state" where
  "SL_AddLogEntry now msg lvl fileNm functionNm lineNo tg suppl s =
     (SL_RESULT_SUCCESS,
      s \<lparr> gLogEntries := (gLogEntries s) [gLogEntryCount s :=
             fill_entry now msg lvl fileNm functionNm lineNo tg suppl
               (gLogEntries s ! gLogEntryCount s)],
          gLogEntryCount := gLogEntryCount s + 1 \<rparr>)"

text \<open>
  The texts that \<open>SL_ProcessTransaction\<close> binds for the members of an entry, each
  read with \<open>strlen\<close> from the first byte of its member. The members lie in the order
  \<open>timestamp\<close>, \<open>message\<close>, \<open>level\<close>, \<open>fileName\<close>, \<open>functionName\<close>,
  \<open>lineNumber\<close>, \<open>tag\<close>, \<open>supplementalData\<close>.
\<close>

definition timestamp_text :: "tSL_LogEntry \<Rightarrow> sql_value" where
  "timestamp_text e = read_on [timestamp e, message e, level e, fileName e, functionName e]"

definition message_text :: "tSL_LogEntry \<Rightarrow> sql_value" where
  "message_text e = read_on [message e, level e, fileName e, functionName e]"

definition level_text :: "tSL_LogEntry \<Rightarrow> sql_value" where
  "level_text e = read_on [level e, fileName e, functionName e]"

definition fileName_text :: "tSL_LogEntry \<Rightarrow> sql_value" where
  "fileName_text e = read_on [fileName e, functionName e]"

definition functionName_text :: "tSL_LogEntry \<Rightarrow> sql_value" where
  "functionName_text e = read_on [functionName e]"

definition tag_text :: "tSL_LogEntry \<Rightarrow> sql_value" where
  "tag_text e = read_on [tag e, supplementalData e]"

definition supplementalData_text :: "tSL_LogEntry \<Rightarrow> sql_value" where
  "supplementalData_text e = read_on [supplementalData e]"

text \<open>
  One pass of the loop body of \<open>SL_ProcessTransaction\<close>. The members of an entry are
  arrays, so the comparisons with NULL are false and every text column is bound with
  \<open>sqlite3_bind_text\<close>.
\<close>

definition insert_row :: "bool \<Rightarrow> tSL_LogEntry \<Rightarrow> sqlite3 \<Rightarrow> int \<times> sqlite3" where
  "insert_row stmt e db =
     (let result = sqlite3_bind_text stmt 1 (timestamp_text e) db;
          result = when_ok result (sqlite3_bind_text stmt 2 (message_text e));
          result = when_ok result (sqlite3_bind_text stmt 3 (level_text e));
          result = when_ok result (sqlite3_bind_text stmt 4 (fileName_text e));
          result = when_ok result (sqlite3_bind_text stmt 5 (functionName_text e));
          result = when_ok result (sqlite3_bind_int stmt 6 (sint (lineNumber e)));
          result = when_ok result (sqlite3_bind_text stmt 7 (tag_text e));
          result = when_ok result (sqlite3_bind_text stmt 8 (supplementalData_text e));
          result = when_ok result (\<lambda>db. eat_done (sqlite3_step_insert stmt db));
          result = when_ok result sqlite3_reset
      in result)"

text \<open>The \<open>for\<close> loop over the buffered entries, left at the first failure.\<close>

fun insert_rows :: "bool \<Rightarrow> tSL_LogEntry list \<Rightarrow> sqlite3 \<Rightarrow> int \<times> sqlite3" where
  "insert_rows stmt [] db = (SQLITE_OK, db)"
| "insert_rows stmt (e # es) db =
     (case insert_row stmt e db of (result, db') \<Rightarrow>
        if result \<noteq> SQLITE_OK then (result, db') else insert_rows stmt es db')"

definition SL_ProcessTransaction :: "sl_state \<Rightarrow> int \<times> sl_state" where
  "SL_ProcessTransaction s =
     (case sqlite3_exec_begin (sqlite s) of (result, db1) \<Rightarrow>
        if result = SQLITE_OK
        then (case insert_rows (gInsertStatement s)
                     (take (gLogEntryCount s) (gLogEntries s)) db1 of (result, db2) \<Rightarrow>
                if result = SQLITE_OK
                then (case sqlite3_exec_end db2 of (result, db3) \<Rightarrow>
                        (result, s \<lparr> sqlite := db3 \<rparr>))
                else (result, s \<lparr> sqlite := sqlite3_exec_rollback db2 \<rparr>))
        else (result, s \<lparr> sqlite := db1 \<rparr>))"

definition SL_Initialize :: "nat \<Rightarrow> string \<Rightarrow> string option \<Rightarrow> sl_state \<Rightarrow> int \<times> sl_state" where
  "SL_Initialize N now path s =
     (let result = (case path of None \<Rightarrow> EFAULT
                    | Some p \<Rightarrow> if strlen p = 0 then EINVAL else SL_RESULT_SUCCESS);
          result = (if result = SL_RESULT_SUCCESS \<and> gSQLiteDatabase s
                    then SL_RESULT_ALREADY_INITIALIZED else result)
      in if result = SL_RESULT_SUCCESS
         then (case sqlite3_open_v2 (sqlite s) of (result, handle, db1) \<Rightarrow>
                 let s1 = s \<lparr> gSQLiteDatabase := handle, sqlite := db1 \<rparr>
                 in if result = SQLITE_OK
                    then (let r = SL_CreateTable now s1
                          in if fst r = SL_RESULT_SUCCESS
                             then (let r = SL_CreateView (snd r);
                                       r = when_ok r SL_CreateView;
                                       r = when_ok r SL_CreateView;
                                       r = when_ok r SL_CreateView;
                                       r = when_ok r SL_CreateView
                                   in if fst r = SL_RESULT_SUCCESS
                                      then (let s2 = memset_entries N (snd r)
                                            in case sqlite3_prepare_v2 (sqlite s2) of
                                                 (result, db2) \<Rightarrow>
                                                   (result, s2 \<lparr> gInsertStatement :=
                                                                   (result = SQLITE_OK),
                                                                 sqlite := db2 \<rparr>))
                                      else r)
                             else r)
                    else (result, s1))
         else (result, s))"

definition SL_Terminate :: "nat \<Rightarrow> sl_state \<Rightarrow> int \<times> sl_state" where
  "SL_Terminate N s =
     (if gSQLiteDatabase s
      then (let r = (if gLogEntryCount s > 0
                     then (case SL_ProcessTransaction s of (result, s1) \<Rightarrow>
                             if result = SL_RESULT_SUCCESS
                             then (result, memset_entries N (s1 \<lparr> gLogEntryCount := 0 \<rparr>))
                             else (result, s1))
                     else (SL_RESULT_SUCCESS, s));
                s2 = (if gInsertStatement (snd r)
                      then (snd r) \<lparr> sqlite := sqlite3_finalize (sqlite (snd r)),
                                     gInsertStatement := False \<rparr>
                      else snd r)
            in (fst r, s2 \<lparr> sqlite := sqlite3_close_v2 (sqlite s2),
                           gSQLiteDatabase := False \<rparr>))
      else (SL_RESULT_NOT_INITIALIZED, s))"

definition SL_SetLogLevel :: "int \<Rightarrow> sl_state \<Rightarrow> int \<times> sl_state" where
  "SL_SetLogLevel lvl s =
     (if lvl \<ge> eSL_LogLevel_Diagnostic \<and> lvl \<le> eSL_LogLevel_None
      then (SL_RESULT_SUCCESS, s \<lparr> gLogLevel := lvl \<rparr>)
      else (EINVAL, s))"

text \<open>
  \<open>SL_GetLogLevel\<close>: \<open>out\<close> tells whether the pointer argument is non-NULL; the
  second component is the value written through it.
\<close>

definition SL_GetLogLevel :: "bool \<Rightarrow> sl_state \<Rightarrow> int \<times> int option" where
  "SL_GetLogLevel out s =
     (let result = (if \<not> out then EFAULT else SL_RESULT_SUCCESS)
      in if result = SL_RESULT_SUCCESS then (result, Some (gLogLevel s)) else (result, None))"

definition SL_Log ::
  "nat \<Rightarrow> string \<Rightarrow> string option \<Rightarrow> int \<Rightarrow> string option \<Rightarrow> string option \<Rightarrow> 32 word \<Rightarrow>
   string option \<Rightarrow> string option \<Rightarrow> sl_state \<Rightarrow> int \<times> sl_state" where
  "SL_Log N now msg lvl fileNm functionNm lineNo tg suppl s =
     (let result = (case msg of None \<Rightarrow> EFAULT
                    | Some m \<Rightarrow> if strlen m = 0 then EINVAL else SL_RESULT_SUCCESS);
          result = (if lvl < eSL_LogLevel_Diagnostic \<or> lvl > eSL_LogLevel_None
                    then EINVAL else result);
          result = (if result = SL_RESULT_SUCCESS \<and> \<not> gSQLiteDatabase s
                    then SL_RESULT_NOT_INITIALIZED else result);
          m = (case msg of None \<Rightarrow> [] | Some m \<Rightarrow> m)
      in if result = SL_RESULT_SUCCESS
         then (if lvl \<ge> gLogLevel s
               then (if gLogEntryCount s < N - 1
                     then SL_AddLogEntry now m lvl fileNm functionNm lineNo tg suppl s
                     else (case SL_ProcessTransaction s of (result, s1) \<Rightarrow>
                             if result = SL_RESULT_SUCCESS
                             then SL_AddLogEntry now m lvl fileNm functionNm lineNo tg suppl
                                    (memset_entries N (s1 \<lparr> gLogEntryCount := 0 \<rparr>))
                             else (result, s1)))
               else (result, s))
         else (result, s))"

section \<open>Runs of a session\<close>

text \<open>The arguments of one \<open>SL_Log\<close> call, with the clock reading of that call.\<close>

record log_args =
  a_now :: string
  a_message :: "string option"
  a_level :: int
  a_fileName :: "string option"
  a_functionName :: "string option"
  a_lineNumber :: "32 word"
  a_tag :: "string option"
  a_supplementalData :: "string option"

definition SL_Log_args :: "nat \<Rightarrow> log_args \<Rightarrow> sl_state \<Rightarrow> int \<times> sl_state" where
  "SL_Log_args N a s =
     SL_Log N (a_now a) (a_message a) (a_level a) (a_fileName a) (a_functionName a)
       (a_lineNumber a) (a_tag a) (a_supplementalData a) s"

text \<open>The content a call gives to a zeroed slot.\<close>

definition entry_of :: "log_args \<Rightarrow> tSL_LogEntry" where
  "entry_of a =
     fill_entry (a_now a) (case a_message a of None \<Rightarrow> [] | Some m \<Rightarrow> m) (a_level a)
       (a_fileName a) (a_functionName a) (a_lineNumber a) (a_tag a) (a_supplementalData a)
       zero_entry"

text \<open>The table row that \<open>SL_ProcessTransaction\<close> binds for an entry.\<close>

definition row_of :: "tSL_LogEntry \<Rightarrow> sql_value list" where
  "row_of e =
     [timestamp_text e, message_text e, level_text e, fileName_text e, functionName_text e,
      SqlInt (sint (lineNumber e)), tag_text e, supplementalData_text e]"

text \<open>The rows of the entries that wait in the buffer, oldest first.\<close>

definition buffered_rows :: "sl_state \<Rightarrow> sql_value list list" where
  "buffered_rows s = map row_of (take (gLogEntryCount s) (gLogEntries s))"

text \<open>
  A caller's sequence of \<open>SL_Log\<close> and \<open>SL_SetLogLevel\<close> calls. The run returns, in
  call order, the \<open>SL_Log\<close> calls that were accepted: those that returned
  \<open>SL_RESULT_SUCCESS\<close> with a level at or above the threshold of the moment.
\<close>

datatype session_op = OpLog log_args | OpSetLevel int

fun run_ops :: "nat \<Rightarrow> session_op list \<Rightarrow> sl_state \<Rightarrow> log_args list \<times> sl_state" where
  "run_ops N [] s = ([], s)"
| "run_ops N (OpSetLevel lvl # ops) s = run_ops N ops (snd (SL_SetLogLevel lvl s))"
| "run_ops N (OpLog a # ops) s =
     (case SL_Log_args N a s of (result, s1) \<Rightarrow>
        case run_ops N ops s1 of (acc, s2) \<Rightarrow>
          (if result = SL_RESULT_SUCCESS \<and> a_level a \<ge> gLogLevel s then a # acc else acc, s2))"

text \<open>A call that passes the argument checks and the level gate of a session.\<close>

definition accepted :: "sl_state \<Rightarrow> log_args \<Rightarrow> bool" where
  "accepted s a =
     ((case a_message a of None \<Rightarrow> False | Some m \<Rightarrow> strlen m \<noteq> 0) \<and>
      eSL_LogLevel_Diagnostic \<le> a_level a \<and> a_level a \<le> eSL_LogLevel_None \<and>
      gLogLevel s \<le> a_level a)"

text \<open>
  The state the buffer is kept in: \<open>N\<close> slots, of which those from
  \<open>gLogEntryCount\<close> on are zeroed.
\<close>

definition session_inv :: "nat \<Rightarrow> sl_state \<Rightarrow> bool" where
  "session_inv N s =
     (0 < N \<and> length (gLogEntries s) = N \<and> gLogEntryCount s \<le> N \<and>
      drop (gLogEntryCount s) (gLogEntries s) = replicate (N - gLogEntryCount s) zero_entry)"

text \<open>
  A text that fits a field of \<open>bound\<close> bytes together with its terminator, and a
  call all of whose texts fit their fields; the time text fits \<open>timestamp\<close>.
\<close>

definition fits :: "nat \<Rightarrow> string \<Rightarrow> bool" where
  "fits bound txt = (length txt < bound \<and> NUL \<notin> set txt)"

definition fits_opt :: "nat \<Rightarrow> string option \<Rightarrow> bool" where
  "fits_opt bound x = (case x of None \<Rightarrow> True | Some txt \<Rightarrow> fits bound txt)"

definition well_formed :: "log_args \<Rightarrow> bool" where
  "well_formed a =
     (fits SL_TIMESTAMP_STRING_LENGTH (a_now a) \<and>
      fits_opt SL_MESSAGE_STRING_LENGTH (a_message a) \<and>
      fits_opt SL_FILE_NAME_STRING_LENGTH (a_fileName a) \<and>
      fits_opt SL_FUNCTION_NAME_STRING_LENGTH (a_functionName a) \<and>
      fits_opt SL_TAG_STRING_LENGTH (a_tag a) \<and>
      fits_opt SL_SUPPLEMENTAL_DATA_STRING_LENGTH (a_supplementalData a))"

text \<open>
  The row a reader of the table expects for a call: the time of the call, the texts that
  were passed, the label of the level and the line number. A NULL pointer leaves its
  zeroed field alone, which is bound as the empty text.
\<close>

definition opt_text :: "string option \<Rightarrow> string" where
  "opt_text x = (case x of None \<Rightarrow> [] | Some txt \<Rightarrow> txt)"

definition call_row :: "log_args \<Rightarrow> sql_value list" where
  "call_row a =
     [SqlText (a_now a), SqlText (opt_text (a_message a)), SqlText (level_string (a_level a)),
      SqlText (opt_text (a_fileName a)), SqlText (opt_text (a_functionName a)),
      SqlInt (sint (a_lineNumber a)), SqlText (opt_text (a_tag a)),
      SqlText (opt_text (a_supplementalData a))]"

text \<open>The number of transactions begun on the store so far.\<close>

definition flushes :: "sl_state \<Rightarrow> nat" where
  "flushes s = count_list (trace (sqlite s)) ExecBegin"

text \<open>
  A call is captured when it returns success and leaves its entry as the newest one of
  the buffer, either in the next free slot with no transaction begun, or alone in the
  buffer after exactly one transaction.
\<close>

definition captured :: "nat \<Rightarrow> log_args \<Rightarrow> sl_state \<Rightarrow> bool" where
  "captured N a s =
     (fst (SL_Log_args N a s) = SL_RESULT_SUCCESS \<and>
      gLogEntries (snd (SL_Log_args N a s)) ! (gLogEntryCount (snd (SL_Log_args N a s)) - 1) =
        entry_of a \<and>
      (gLogEntryCount (snd (SL_Log_args N a s)) = gLogEntryCount s + 1 \<and>
       flushes (snd (SL_Log_args N a s)) = flushes s \<or>
       gLogEntryCount (snd (SL_Log_args N a s)) = 1 \<and>
       flushes (snd (SL_Log_args N a s)) = flushes s + 1))"

text \<open>
  \<open>in_txn db0 db\<close>: \<open>db\<close> is reached from \<open>db0\<close> inside one open transaction, by
  calls other than BEGIN, with the table as it was.
\<close>

definition in_txn :: "sqlite3 \<Rightarrow> sqlite3 \<Rightarrow> bool" where
  "in_txn db0 db =
     (txn_open db \<and> table_rows db = table_rows db0 \<and>
      (\<exists>t. trace db = trace db0 @ t \<and> ExecBegin \<notin> set t))"

text \<open>A call on the store that went through, on a store that lets every call through.\<close>

definition went_through :: "int \<times> sqlite3 \<Rightarrow> bool" where
  "went_through r = (fst r = SQLITE_OK \<and> faults (snd r) = [])"

text \<open>
  A session that is initialised on a store that lets every call through and has no
  transaction open.
\<close>

definition healthy :: "nat \<Rightarrow> sl_state \<Rightarrow> bool" where
  "healthy N s =
     (session_inv N s \<and> gSQLiteDatabase s \<and> gInsertStatement s \<and>
      faults (sqlite s) = [] \<and> \<not> txn_open (sqlite s))"

text \<open>The schema calls on a store that lets every call through.\<close>

definition schema_ok :: "int \<times> sl_state \<Rightarrow> bool" where
  "schema_ok r =
     (fst r = SQLITE_OK \<and> faults (sqlite (snd r)) = [] \<and> \<not> txn_open (sqlite (snd r)) \<and>
      txn_rows (sqlite (snd r)) = [])"

section \<open>An example session\<close>

text \<open>The environment fixes the result codes of the coming calls on the store.\<close>

definition with_faults :: "int list \<Rightarrow> sl_state \<Rightarrow> sl_state" where
  "with_faults fs s = s \<lparr> sqlite := (sqlite s) \<lparr> faults := fs \<rparr> \<rparr>"

text \<open>
  A session with three slots, right after its start-up on an empty store, and five
  calls of \<open>SL_Log\<close> for it.
\<close>

definition demo_session :: sl_state where
  "demo_session =
     snd (SL_Initialize 3 ''2022-02-19 10:00:00.000000 UTC'' (Some ''log.sqlite3'')
            (initial_state 3 empty_store))"

definition demo_call :: "string \<Rightarrow> int \<Rightarrow> log_args" where
  "demo_call m lvl =
     \<lparr> a_now = ''2022-02-19 10:00:01.000000 UTC'', a_message = Some m, a_level = lvl,
       a_fileName = Some ''main.c'', a_functionName = Some ''main'', a_lineNumber = 42,
       a_tag = None, a_supplementalData = None \<rparr>"

definition demo_calls :: "log_args list" where
  "demo_calls =
     [demo_call ''one'' eSL_LogLevel_Info, demo_call ''two'' eSL_LogLevel_Warning,
      demo_call ''three'' eSL_LogLevel_Error, demo_call ''four'' eSL_LogLevel_None,
      demo_call ''five'' eSL_LogLevel_Info]"

text \<open>
  The example session with two entries in its three slots; the store lets the BEGIN and
  the whole first row through and fails the \<open>sqlite3_step\<close> of the second row with
  \<open>SQLITE_FULL\<close> (13).
\<close>

definition full_session :: sl_state where
  "full_session = snd (run_ops 3 (map OpLog (take 2 demo_calls)) demo_session)"

definition step_fails :: "int list" where
  "step_fails = [0, 0, 0, 0, 0, 0, 0, 0, 0, 0, 0, 0, 0, 0, 0, 0, 0, 0, 0, 13]"


text \<open>
  The example session after one entry, torn down while the store refuses the BEGIN of
  the teardown flush with \<open>SQLITE_BUSY\<close> (5), and the start-up that follows.
\<close>

definition failed_teardown :: "int \<times> sl_state" where
  "failed_teardown =
     SL_Terminate 3 (with_faults [5] (snd (SL_Log_args 3 (demo_calls ! 0) demo_session)))"

definition restarted :: "int \<times> sl_state" where
  "restarted =
     SL_Initialize 3 ''2022-02-19 11:00:00.000000 UTC'' (Some ''log.sqlite3'')
       (snd failed_teardown)"

text \<open>
  Two more calls of the example, made in the session that this start-up leaves: they are
  the first two calls of that session.
\<close>

definition restarted_first :: "int \<times> sl_state" where
  "restarted_first = SL_Log_args 3 (demo_calls ! 1) (snd restarted)"

definition restarted_second :: "int \<times> sl_state" where
  "restarted_second = SL_Log_args 3 (demo_calls ! 2) (snd restarted_first)"

text \<open>A call of the example with a message of 1025 characters.\<close>

definition long_call :: log_args where
  "long_call = demo_call (replicate 1025 (CHR ''x'')) eSL_LogLevel_Info"

text \<open>
  A call of the example made at a time whose text has 32 characters, as in a time zone
  that is abbreviated by its offset.
\<close>

definition zone_call :: log_args where
  "zone_call =
     (demo_call ''one'' eSL_LogLevel_Info) \<lparr> a_now := ''2022-02-19 10:00:01.000000 +0530'' \<rparr>"

section \<open>Properties of the field copy\<close>

lemma copy_count_le: "copy_count src bound \<le> bound"
  by (auto simp: copy_count_def)

lemma length_strncpy: "n \<le> length dst \<Longrightarrow> length (strncpy dst src n) = length dst"
  by (simp add: strncpy_def)

text \<open>No field copy of \<open>SL_AddLogEntry\<close> writes past its field.\<close>

lemma length_copy_field: "length dst = bound \<Longrightarrow> length (copy_field dst src bound) = bound"
  by (cases src) (simp_all add: copy_field_def length_strncpy copy_count_le)

text \<open>
  A text of \<open>bound\<close> characters or more fills the whole field with its first
  \<open>bound\<close> characters, so that no terminator is left in it.
\<close>

lemma strncpy_overlong:
  "bound \<le> length src \<Longrightarrow> length dst = bound \<Longrightarrow>
   strncpy dst src (copy_count src bound) = take bound src"
  by (simp add: strncpy_def copy_count_def strlen_def)

section \<open>The store and the batch commit\<close>

subsection \<open>Calls on the store\<close>

lemma called_simps:
  "table_rows (snd (called c db)) = table_rows db"
  "txn_rows (snd (called c db)) = txn_rows db"
  "txn_open (snd (called c db)) = txn_open db"
  "bindings (snd (called c db)) = bindings db"
  "trace (snd (called c db)) = trace db @ [c]"
  by (simp_all add: called_def)

lemma in_txn_refl: "txn_open db \<Longrightarrow> in_txn db db"
  by (simp add: in_txn_def)

lemma in_txn_bind_text: "in_txn db0 db \<Longrightarrow> in_txn db0 (snd (sqlite3_bind_text stmt i v db))"
  by (auto simp: in_txn_def sqlite3_bind_text_def called_def)

lemma in_txn_bind_int: "in_txn db0 db \<Longrightarrow> in_txn db0 (snd (sqlite3_bind_int stmt i v db))"
  by (auto simp: in_txn_def sqlite3_bind_int_def called_def)

lemma in_txn_step: "in_txn db0 db \<Longrightarrow> in_txn db0 (snd (eat_done (sqlite3_step_insert stmt db)))"
  by (auto simp: in_txn_def sqlite3_step_insert_def eat_done_def called_def)

lemma in_txn_reset: "in_txn db0 db \<Longrightarrow> in_txn db0 (snd (sqlite3_reset db))"
  by (auto simp: in_txn_def sqlite3_reset_def called_def)

lemma in_txn_when_ok:
  "in_txn db0 (snd r) \<Longrightarrow> (\<And>d. in_txn db0 d \<Longrightarrow> in_txn db0 (snd (f d))) \<Longrightarrow>
   in_txn db0 (snd (when_ok r f))"
  by (simp add: when_ok_def)

lemma in_txn_insert_row: "in_txn db0 db \<Longrightarrow> in_txn db0 (snd (insert_row stmt e db))"
  unfolding insert_row_def Let_def
  by (intro in_txn_when_ok in_txn_bind_text in_txn_bind_int in_txn_step in_txn_reset)

lemma in_txn_insert_rows: "in_txn db0 db \<Longrightarrow> in_txn db0 (snd (insert_rows stmt es db))"
proof (induction es arbitrary: db)
  case Nil
  then show ?case by simp
next
  case (Cons e es)
  from Cons.prems have "in_txn db0 (snd (insert_row stmt e db))"
    by (rule in_txn_insert_row)
  with Cons.IH show ?case
    by (cases "insert_row stmt e db") auto
qed

subsection \<open>Rows of a batch that goes through\<close>

lemma when_ok_OK:
  assumes "when_ok r f = (SQLITE_OK, d')"
  obtains d where "r = (SQLITE_OK, d)" and "f d = (SQLITE_OK, d')"
  using assms by (cases r) (auto simp: when_ok_def split: if_splits)

lemma bind_text_OK:
  assumes "sqlite3_bind_text stmt i v db = (SQLITE_OK, db')"
  shows "bindings db' = (bindings db) (i := v)"
    and "txn_rows db' = txn_rows db" and "txn_open db' = txn_open db"
  using assms by (auto simp: sqlite3_bind_text_def called_def SQLITE_OK_def SQLITE_MISUSE_def
      split: if_splits)

lemma bind_int_OK:
  assumes "sqlite3_bind_int stmt i v db = (SQLITE_OK, db')"
  shows "bindings db' = (bindings db) (i := SqlInt v)"
    and "txn_rows db' = txn_rows db" and "txn_open db' = txn_open db"
  using assms by (auto simp: sqlite3_bind_int_def called_def SQLITE_OK_def SQLITE_MISUSE_def
      split: if_splits)

lemma step_insert_OK:
  assumes "eat_done (sqlite3_step_insert stmt db) = (SQLITE_OK, db')" and "txn_open db"
  shows "txn_rows db' = txn_rows db @ [bound_row db]" and "txn_open db'"
  using assms by (auto simp: sqlite3_step_insert_def eat_done_def called_def bound_row_def
      SQLITE_OK_def SQLITE_MISUSE_def SQLITE_DONE_def split: if_splits)

lemma reset_OK:
  assumes "sqlite3_reset db = (SQLITE_OK, db')"
  shows "txn_rows db' = txn_rows db" and "txn_open db' = txn_open db"
  using assms by (auto simp: sqlite3_reset_def called_def)

lemma insert_row_OK:
  assumes "insert_row stmt e db = (SQLITE_OK, db')" and "txn_open db"
  shows "txn_rows db' = txn_rows db @ [row_of e]"
proof -
  from assms(1) obtain d1 d2 d3 d4 d5 d6 d7 d8 d9 where
    b1: "sqlite3_bind_text stmt 1 (timestamp_text e) db = (SQLITE_OK, d1)" and
    b2: "sqlite3_bind_text stmt 2 (message_text e) d1 = (SQLITE_OK, d2)" and
    b3: "sqlite3_bind_text stmt 3 (level_text e) d2 = (SQLITE_OK, d3)" and
    b4: "sqlite3_bind_text stmt 4 (fileName_text e) d3 = (SQLITE_OK, d4)" and
    b5: "sqlite3_bind_text stmt 5 (functionName_text e) d4 = (SQLITE_OK, d5)" and
    b6: "sqlite3_bind_int stmt 6 (sint (lineNumber e)) d5 = (SQLITE_OK, d6)" and
    b7: "sqlite3_bind_text stmt 7 (tag_text e) d6 = (SQLITE_OK, d7)" and
    b8: "sqlite3_bind_text stmt 8 (supplementalData_text e) d7 = (SQLITE_OK, d8)" and
    st: "eat_done (sqlite3_step_insert stmt d8) = (SQLITE_OK, d9)" and
    rs: "sqlite3_reset d9 = (SQLITE_OK, db')"
    unfolding insert_row_def Let_def by (elim when_ok_OK) blast
  have open8: "txn_open d8"
    using assms(2) bind_text_OK(3) [OF b1] bind_text_OK(3) [OF b2] bind_text_OK(3) [OF b3]
      bind_text_OK(3) [OF b4] bind_text_OK(3) [OF b5] bind_int_OK(3) [OF b6]
      bind_text_OK(3) [OF b7] bind_text_OK(3) [OF b8] by simp
  have rows8: "txn_rows d8 = txn_rows db"
    using bind_text_OK(2) [OF b1] bind_text_OK(2) [OF b2] bind_text_OK(2) [OF b3]
      bind_text_OK(2) [OF b4] bind_text_OK(2) [OF b5] bind_int_OK(2) [OF b6]
      bind_text_OK(2) [OF b7] bind_text_OK(2) [OF b8] by simp
  have "bound_row d8 = row_of e"
    using bind_text_OK(1) [OF b1] bind_text_OK(1) [OF b2] bind_text_OK(1) [OF b3]
      bind_text_OK(1) [OF b4] bind_text_OK(1) [OF b5] bind_int_OK(1) [OF b6]
      bind_text_OK(1) [OF b7] bind_text_OK(1) [OF b8]
    by (simp add: bound_row_def row_of_def)
  with step_insert_OK(1) [OF st open8] reset_OK(1) [OF rs] rows8 show ?thesis
    by simp
qed

lemma insert_rows_OK:
  "insert_rows stmt es db = (SQLITE_OK, db') \<Longrightarrow> txn_open db \<Longrightarrow>
   txn_rows db' = txn_rows db @ map row_of es"
proof (induction es arbitrary: db)
  case Nil
  then show ?case by simp
next
  case (Cons e es)
  obtain rc d where r: "insert_row stmt e db = (rc, d)"
    by (cases "insert_row stmt e db")
  with Cons.prems(1) have rc: "rc = SQLITE_OK" and rest: "insert_rows stmt es d = (SQLITE_OK, db')"
    by (auto split: if_splits)
  from in_txn_insert_row [OF in_txn_refl [OF Cons.prems(2)], of stmt e] r
  have "txn_open d" by (simp add: in_txn_def)
  from Cons.IH [OF rest this] insert_row_OK [OF r [unfolded rc] Cons.prems(2)]
  show ?case by simp
qed

subsection \<open>The batch commit\<close>

lemma SL_ProcessTransaction_vars:
  "snd (SL_ProcessTransaction s) = s \<lparr> sqlite := sqlite (snd (SL_ProcessTransaction s)) \<rparr>"
  by (simp add: SL_ProcessTransaction_def split: prod.splits)

lemma exec_begin_OK:
  assumes "sqlite3_exec_begin db = (SQLITE_OK, db1)"
  shows "txn_open db1" and "\<not> txn_open db" and "table_rows db1 = table_rows db"
    and "txn_rows db1 = []" and "trace db1 = trace db @ [ExecBegin]"
  using assms by (auto simp: sqlite3_exec_begin_def called_def SQLITE_OK_def SQLITE_ERROR_def
      split: if_splits)

lemma exec_begin_fail:
  assumes "sqlite3_exec_begin db = (rc, db1)" and "rc \<noteq> SQLITE_OK"
  shows "txn_open db1 = txn_open db" and "table_rows db1 = table_rows db"
    and "txn_rows db1 = txn_rows db" and "trace db1 = trace db @ [ExecBegin]"
  using assms by (auto simp: sqlite3_exec_begin_def called_def split: if_splits)

lemma exec_end_OK:
  assumes "sqlite3_exec_end db = (SQLITE_OK, db1)"
  shows "\<not> txn_open db1" and "table_rows db1 = table_rows db @ txn_rows db"
    and "txn_rows db1 = []" and "trace db1 = trace db @ [ExecEnd]"
  using assms by (auto simp: sqlite3_exec_end_def called_def SQLITE_OK_def SQLITE_ERROR_def
      split: if_splits)

lemma exec_end_fail:
  assumes "sqlite3_exec_end db = (rc, db1)" and "rc \<noteq> SQLITE_OK"
  shows "txn_open db1 = txn_open db" and "table_rows db1 = table_rows db"
    and "txn_rows db1 = txn_rows db" and "trace db1 = trace db @ [ExecEnd]"
  using assms by (auto simp: sqlite3_exec_end_def called_def split: if_splits)

lemma exec_rollback_simps:
  "\<not> txn_open (sqlite3_exec_rollback db)" "txn_rows (sqlite3_exec_rollback db) = []"
  "table_rows (sqlite3_exec_rollback db) = table_rows db"
  "trace (sqlite3_exec_rollback db) = trace db @ [ExecRollback]"
  by (simp_all add: sqlite3_exec_rollback_def called_void_def)

text \<open>A batch commit that succeeds moves the buffered rows to the table, in buffer order.\<close>

lemma SL_ProcessTransaction_OK:
  assumes pt: "SL_ProcessTransaction s = (SQLITE_OK, s')"
  shows "table_rows (sqlite s') = table_rows (sqlite s) @ buffered_rows s"
    and "txn_rows (sqlite s') = []" and "\<not> txn_open (sqlite s')"
proof -
  obtain r1 db1 where b: "sqlite3_exec_begin (sqlite s) = (r1, db1)"
    by (cases "sqlite3_exec_begin (sqlite s)")
  obtain r2 db2 where
    i: "insert_rows (gInsertStatement s) (take (gLogEntryCount s) (gLogEntries s)) db1 = (r2, db2)"
    by (cases "insert_rows (gInsertStatement s) (take (gLogEntryCount s) (gLogEntries s)) db1")
  obtain r3 db3 where e: "sqlite3_exec_end db2 = (r3, db3)"
    by (cases "sqlite3_exec_end db2")
  from pt b i e have r1: "r1 = SQLITE_OK" and r2: "r2 = SQLITE_OK" and r3: "r3 = SQLITE_OK"
    and s': "sqlite s' = db3"
    by (auto simp: SL_ProcessTransaction_def split: if_splits)
  note bo = exec_begin_OK [OF b [unfolded r1]]
  note empty1 = bo(4)
  from in_txn_insert_rows [OF in_txn_refl [OF bo(1)], of "gInsertStatement s"
      "take (gLogEntryCount s) (gLogEntries s)"] i
  have tab2: "table_rows db2 = table_rows db1" by (simp add: in_txn_def)
  from insert_rows_OK [OF i [unfolded r2] bo(1)] empty1
  have rows2: "txn_rows db2 = buffered_rows s" by (simp add: buffered_rows_def)
  note eo = exec_end_OK [OF e [unfolded r3]]
  show "table_rows (sqlite s') = table_rows (sqlite s) @ buffered_rows s"
    using eo(2) tab2 rows2 bo(3) s' by simp
  show "txn_rows (sqlite s') = []" using eo(3) s' by simp
  show "\<not> txn_open (sqlite s')" using eo(1) s' by simp
qed

text \<open>A batch commit that fails leaves the table as it was.\<close>

lemma SL_ProcessTransaction_fail:
  assumes pt: "SL_ProcessTransaction s = (rc, s')" and rc: "rc \<noteq> SQLITE_OK"
  shows "table_rows (sqlite s') = table_rows (sqlite s)"
proof -
  obtain r1 db1 where b: "sqlite3_exec_begin (sqlite s) = (r1, db1)"
    by (cases "sqlite3_exec_begin (sqlite s)")
  obtain r2 db2 where
    i: "insert_rows (gInsertStatement s) (take (gLogEntryCount s) (gLogEntries s)) db1 = (r2, db2)"
    by (cases "insert_rows (gInsertStatement s) (take (gLogEntryCount s) (gLogEntries s)) db1")
  obtain r3 db3 where e: "sqlite3_exec_end db2 = (r3, db3)"
    by (cases "sqlite3_exec_end db2")
  show ?thesis
  proof (cases "r1 = SQLITE_OK")
    case False
    with pt b have "sqlite s' = db1" by (auto simp: SL_ProcessTransaction_def)
    with exec_begin_fail [OF b False] show ?thesis by simp
  next
    case True
    note bo = exec_begin_OK [OF b [unfolded True]]
    from in_txn_insert_rows [OF in_txn_refl [OF bo(1)], of "gInsertStatement s"
        "take (gLogEntryCount s) (gLogEntries s)"] i
    have tab2: "table_rows db2 = table_rows db1" and open2: "txn_open db2"
      by (simp_all add: in_txn_def)
    show ?thesis
    proof (cases "r2 = SQLITE_OK")
      case False
      with pt b i True have "sqlite s' = sqlite3_exec_rollback db2"
        by (auto simp: SL_ProcessTransaction_def)
      with tab2 bo(3) show ?thesis by (simp add: exec_rollback_simps)
    next
      case r2: True
      with pt b i e True have "sqlite s' = db3" and "r3 = rc"
        by (auto simp: SL_ProcessTransaction_def)
      with exec_end_fail [OF e] rc tab2 open2 bo(3) show ?thesis by simp
    qed
  qed
qed

text \<open>Every batch commit begins exactly one transaction, as its first call.\<close>

lemma SL_ProcessTransaction_trace:
  "\<exists>t. trace (sqlite (snd (SL_ProcessTransaction s))) = trace (sqlite s) @ ExecBegin # t \<and>
       ExecBegin \<notin> set t"
proof -
  obtain r1 db1 where b: "sqlite3_exec_begin (sqlite s) = (r1, db1)"
    by (cases "sqlite3_exec_begin (sqlite s)")
  obtain r2 db2 where
    i: "insert_rows (gInsertStatement s) (take (gLogEntryCount s) (gLogEntries s)) db1 = (r2, db2)"
    by (cases "insert_rows (gInsertStatement s) (take (gLogEntryCount s) (gLogEntries s)) db1")
  obtain r3 db3 where e: "sqlite3_exec_end db2 = (r3, db3)"
    by (cases "sqlite3_exec_end db2")
  show ?thesis
  proof (cases "r1 = SQLITE_OK")
    case False
    with b have "sqlite (snd (SL_ProcessTransaction s)) = db1"
      by (simp add: SL_ProcessTransaction_def)
    with exec_begin_fail(4) [OF b False] show ?thesis by simp
  next
    case True
    note bo = exec_begin_OK [OF b [unfolded True]]
    from in_txn_insert_rows [OF in_txn_refl [OF bo(1)], of "gInsertStatement s"
        "take (gLogEntryCount s) (gLogEntries s)"] i
    obtain t where t: "trace db2 = trace db1 @ t" "ExecBegin \<notin> set t"
      by (auto simp: in_txn_def)
    show ?thesis
    proof (cases "r2 = SQLITE_OK")
      case False
      with b i True have "sqlite (snd (SL_ProcessTransaction s)) = sqlite3_exec_rollback db2"
        by (simp add: SL_ProcessTransaction_def)
      with t bo(5) show ?thesis by (simp add: exec_rollback_simps)
    next
      case r2: True
      with b i e True have "sqlite (snd (SL_ProcessTransaction s)) = db3"
        by (simp add: SL_ProcessTransaction_def)
      moreover have "trace db3 = trace db2 @ [ExecEnd]"
        using e by (auto simp: sqlite3_exec_end_def called_def split: if_splits)
      ultimately show ?thesis using t bo(5) by simp
    qed
  qed
qed

lemma SL_ProcessTransaction_flushes:
  "flushes (snd (SL_ProcessTransaction s)) = flushes s + 1"
proof -
  from SL_ProcessTransaction_trace [of s] obtain t where
    "trace (sqlite (snd (SL_ProcessTransaction s))) = trace (sqlite s) @ ExecBegin # t"
    and "ExecBegin \<notin> set t" by blast
  then show ?thesis by (simp add: flushes_def)
qed

subsection \<open>Slots of the buffer\<close>

lemma zeroed_slot:
  assumes "length es = N" and "c < N" and "drop c es = replicate (N - c) z"
  shows "es ! c = z"
proof -
  have "es ! c = drop c es ! 0" using assms(1,2) by simp
  also have "\<dots> = z" using assms(2,3) by simp
  finally show ?thesis .
qed

lemma zeroed_rest:
  assumes "drop c es = replicate (N - c) z"
  shows "drop (Suc c) (es [c := x]) = replicate (N - Suc c) z"
proof -
  have "drop (Suc c) (es [c := x]) = drop (Suc c) es" by simp
  also have "\<dots> = drop 1 (drop c es)" by simp
  also have "\<dots> = replicate (N - Suc c) z" unfolding assms by simp
  finally show ?thesis .
qed

lemma take_Suc_update: "c < length es \<Longrightarrow> take (Suc c) (es [c := x]) = take c es @ [x]"
  by (simp add: take_Suc_conv_app_nth)

subsection \<open>One call of \<open>SL_Log\<close>\<close>

text \<open>The three ways through \<open>SL_Log\<close>, told apart by the checks and the count.\<close>

lemma SL_Log_args_not_accepted:
  assumes "\<not> (gSQLiteDatabase s \<and> accepted s a)"
  shows "snd (SL_Log_args N a s) = s"
    and "fst (SL_Log_args N a s) = SL_RESULT_SUCCESS \<Longrightarrow> a_level a < gLogLevel s"
  using assms
  by (auto simp: SL_Log_args_def SL_Log_def accepted_def Let_def SL_RESULT_SUCCESS_def
      EFAULT_def EINVAL_def SL_RESULT_NOT_INITIALIZED_def SL_RESULT_RESERVED_START_def
      split: option.splits if_splits)

lemma SL_Log_args_direct:
  assumes "gSQLiteDatabase s" and "accepted s a" and "gLogEntryCount s < N - 1"
  shows "SL_Log_args N a s =
           SL_AddLogEntry (a_now a) (case a_message a of None \<Rightarrow> [] | Some m \<Rightarrow> m) (a_level a)
             (a_fileName a) (a_functionName a) (a_lineNumber a) (a_tag a)
             (a_supplementalData a) s"
  using assms
  by (auto simp: SL_Log_args_def SL_Log_def accepted_def Let_def SL_RESULT_SUCCESS_def
      split: option.splits)

lemma SL_Log_args_flush:
  assumes "gSQLiteDatabase s" and "accepted s a" and "\<not> gLogEntryCount s < N - 1"
  shows "SL_Log_args N a s =
           (case SL_ProcessTransaction s of (result, s1) \<Rightarrow>
              if result = SL_RESULT_SUCCESS
              then SL_AddLogEntry (a_now a) (case a_message a of None \<Rightarrow> [] | Some m \<Rightarrow> m)
                     (a_level a) (a_fileName a) (a_functionName a) (a_lineNumber a) (a_tag a)
                     (a_supplementalData a) (memset_entries N (s1 \<lparr> gLogEntryCount := 0 \<rparr>))
              else (result, s1))"
  using assms
  by (auto simp: SL_Log_args_def SL_Log_def accepted_def Let_def SL_RESULT_SUCCESS_def
      split: option.splits)

lemma SL_AddLogEntry_zeroed:
  assumes "gLogEntries s ! gLogEntryCount s = zero_entry"
  shows "SL_AddLogEntry (a_now a) (case a_message a of None \<Rightarrow> [] | Some m \<Rightarrow> m) (a_level a)
           (a_fileName a) (a_functionName a) (a_lineNumber a) (a_tag a) (a_supplementalData a) s =
         (SL_RESULT_SUCCESS,
          s \<lparr> gLogEntries := (gLogEntries s) [gLogEntryCount s := entry_of a],
              gLogEntryCount := gLogEntryCount s + 1 \<rparr>)"
  using assms by (simp add: SL_AddLogEntry_def entry_of_def)

text \<open>The outcome of a call that is stored directly.\<close>

lemma SL_Log_args_direct_zeroed:
  assumes "session_inv N s" and "gSQLiteDatabase s" and "accepted s a"
    and "gLogEntryCount s < N - 1"
  shows "SL_Log_args N a s =
         (SL_RESULT_SUCCESS,
          s \<lparr> gLogEntries := (gLogEntries s) [gLogEntryCount s := entry_of a],
              gLogEntryCount := gLogEntryCount s + 1 \<rparr>)"
proof -
  from assms(1,4) have "gLogEntries s ! gLogEntryCount s = zero_entry"
    by (intro zeroed_slot [where N = N]) (simp_all add: session_inv_def)
  then show ?thesis
    by (simp add: SL_Log_args_direct [OF assms(2,3,4)] SL_AddLogEntry_zeroed)
qed

text \<open>The outcome of a call that finds the buffer full and whose flush goes through.\<close>

lemma SL_Log_args_flush_OK:
  assumes "0 < N" and "gSQLiteDatabase s" and "accepted s a" and "\<not> gLogEntryCount s < N - 1"
    and "SL_ProcessTransaction s = (SL_RESULT_SUCCESS, s1)"
  shows "SL_Log_args N a s =
         (SL_RESULT_SUCCESS,
          s1 \<lparr> gLogEntryCount := 1, gLogEntries := (replicate N zero_entry) [0 := entry_of a] \<rparr>)"
proof -
  have "gLogEntries (memset_entries N (s1 \<lparr> gLogEntryCount := 0 \<rparr>)) !
          gLogEntryCount (memset_entries N (s1 \<lparr> gLogEntryCount := 0 \<rparr>)) = zero_entry"
    using assms(1) by (simp add: memset_entries_def)
  from SL_AddLogEntry_zeroed [OF this, of a] assms(5) show ?thesis
    by (simp add: SL_Log_args_flush [OF assms(2,3,4)] memset_entries_def)
qed

lemma SL_Log_args_flush_fail:
  assumes "gSQLiteDatabase s" and "accepted s a" and "\<not> gLogEntryCount s < N - 1"
    and "SL_ProcessTransaction s = (rc, s1)" and "rc \<noteq> SL_RESULT_SUCCESS"
  shows "SL_Log_args N a s = (rc, s1)"
  using assms(4,5) by (simp add: SL_Log_args_flush [OF assms(1,2,3)])

lemma SL_Log_args_gLogLevel: "gLogLevel (snd (SL_Log_args N a s)) = gLogLevel s"
proof (cases "gSQLiteDatabase s \<and> accepted s a")
  case False
  then show ?thesis by (simp add: SL_Log_args_not_accepted(1))
next
  case True
  have pt: "gLogLevel (snd (SL_ProcessTransaction s)) = gLogLevel s"
    by (subst SL_ProcessTransaction_vars) simp
  show ?thesis
  proof (cases "gLogEntryCount s < N - 1")
    case c: True
    with True show ?thesis by (simp add: SL_Log_args_direct SL_AddLogEntry_def)
  next
    case c: False
    with True pt show ?thesis
      by (cases "SL_ProcessTransaction s")
        (simp add: SL_Log_args_flush SL_AddLogEntry_def memset_entries_def)
  qed
qed

text \<open>
  What one call does to the rows: the rows of the table followed by the rows of the
  buffer grow by the row of the call when it is accepted, and stay as they are otherwise.
\<close>

lemma SL_Log_args_rows:
  assumes inv: "session_inv N s" and call: "SL_Log_args N a s = (rc, s')"
  shows "session_inv N s'"
    and "table_rows (sqlite s') @ buffered_rows s' =
         table_rows (sqlite s) @ buffered_rows s @
         (if rc = SL_RESULT_SUCCESS \<and> gLogLevel s \<le> a_level a then [row_of (entry_of a)] else [])"
proof -
  have "session_inv N s' \<and> table_rows (sqlite s') @ buffered_rows s' =
         table_rows (sqlite s) @ buffered_rows s @
         (if rc = SL_RESULT_SUCCESS \<and> gLogLevel s \<le> a_level a then [row_of (entry_of a)] else [])"
  proof (cases "gSQLiteDatabase s \<and> accepted s a")
    case False
    from SL_Log_args_not_accepted [OF False, of N] call inv show ?thesis by auto
  next
    case True
    then have db: "gSQLiteDatabase s" and acc: "accepted s a" by simp_all
    from acc have lvl: "gLogLevel s \<le> a_level a" by (simp add: accepted_def)
    from inv have N: "0 < N" and len: "length (gLogEntries s) = N"
      and zs: "drop (gLogEntryCount s) (gLogEntries s) =
               replicate (N - gLogEntryCount s) zero_entry"
      by (simp_all add: session_inv_def)
    show ?thesis
    proof (cases "gLogEntryCount s < N - 1")
      case c: True
      from SL_Log_args_direct_zeroed [OF inv db acc c] call
      have rc: "rc = SL_RESULT_SUCCESS"
        and s': "s' = s \<lparr> gLogEntries := (gLogEntries s) [gLogEntryCount s := entry_of a],
                          gLogEntryCount := gLogEntryCount s + 1 \<rparr>" by simp_all
      from c len have lt: "gLogEntryCount s < length (gLogEntries s)" by simp
      have "session_inv N s'"
        using N len c zeroed_rest [OF zs, of "entry_of a"]
        by (simp add: session_inv_def s')
      moreover have "buffered_rows s' = buffered_rows s @ [row_of (entry_of a)]"
        using take_Suc_update [OF lt, of "entry_of a"] by (simp add: buffered_rows_def s')
      ultimately show ?thesis using rc lvl by (simp add: s')
    next
      case c: False
      obtain r1 s1 where pt: "SL_ProcessTransaction s = (r1, s1)"
        by (cases "SL_ProcessTransaction s")
      from SL_ProcessTransaction_vars [of s] pt
      have s1: "s1 = s \<lparr> sqlite := sqlite s1 \<rparr>" by simp
      show ?thesis
      proof (cases "r1 = SL_RESULT_SUCCESS")
        case ok: True
        from SL_Log_args_flush_OK [OF N db acc c pt [unfolded ok]] call
        have rc: "rc = SL_RESULT_SUCCESS"
          and s': "s' = s1 \<lparr> gLogEntryCount := 1,
                            gLogEntries := (replicate N zero_entry) [0 := entry_of a] \<rparr>"
          by simp_all
        note po = SL_ProcessTransaction_OK [OF pt [unfolded ok SL_RESULT_SUCCESS_def,
              folded SQLITE_OK_def]]
        have "drop (Suc 0) ((replicate N zero_entry) [0 := entry_of a]) =
              replicate (N - Suc 0) zero_entry"
          by (rule zeroed_rest) simp
        then have "session_inv N s'"
          using N by (simp add: session_inv_def s')
        moreover have "buffered_rows s' = [row_of (entry_of a)]"
          using N take_Suc_update [of 0 "replicate N zero_entry" "entry_of a"]
          by (simp add: buffered_rows_def s')
        ultimately show ?thesis using rc lvl po(1) by (simp add: s')
      next
        case bad: False
        from SL_Log_args_flush_fail [OF db acc c pt bad] call
        have rc: "rc = r1" and s': "s' = s1" by simp_all
        note pf = SL_ProcessTransaction_fail [OF pt bad [unfolded SL_RESULT_SUCCESS_def,
              folded SQLITE_OK_def]]
        have "session_inv N s'"
          using inv by (subst s', subst s1) (simp add: session_inv_def)
        moreover have "buffered_rows s' = buffered_rows s"
          by (subst s', subst s1) (simp add: buffered_rows_def)
        ultimately show ?thesis using rc bad pf by (simp add: s')
      qed
    qed
  qed
  then show "session_inv N s'"
    and "table_rows (sqlite s') @ buffered_rows s' =
         table_rows (sqlite s) @ buffered_rows s @
         (if rc = SL_RESULT_SUCCESS \<and> gLogLevel s \<le> a_level a then [row_of (entry_of a)] else [])"
    by simp_all
qed

subsection \<open>Runs\<close>

lemma SL_SetLogLevel_simps:
  "sqlite (snd (SL_SetLogLevel lvl s)) = sqlite s"
  "buffered_rows (snd (SL_SetLogLevel lvl s)) = buffered_rows s"
  "session_inv N (snd (SL_SetLogLevel lvl s)) = session_inv N s"
  by (simp_all add: SL_SetLogLevel_def buffered_rows_def session_inv_def)

text \<open>
  Over a whole run the table followed by the buffer grows by the rows of the accepted
  calls, in call order.
\<close>

lemma run_ops_rows:
  "session_inv N s \<Longrightarrow> run_ops N ops s = (acc, s') \<Longrightarrow>
   session_inv N s' \<and>
   table_rows (sqlite s') @ buffered_rows s' =
   table_rows (sqlite s) @ buffered_rows s @ map (\<lambda>a. row_of (entry_of a)) acc"
proof (induction N ops s arbitrary: acc s' rule: run_ops.induct)
  case (1 N s)
  then show ?case by simp
next
  case (2 N lvl ops s)
  from "2.prems"(1) have "session_inv N (snd (SL_SetLogLevel lvl s))"
    by (simp add: SL_SetLogLevel_simps)
  from "2.IH" [OF this] "2.prems"(2) show ?case
    by (simp add: SL_SetLogLevel_simps)
next
  case (3 N a ops s)
  obtain rc s1 where c: "SL_Log_args N a s = (rc, s1)"
    by (cases "SL_Log_args N a s")
  obtain acc1 s2 where r: "run_ops N ops s1 = (acc1, s2)"
    by (cases "run_ops N ops s1")
  note step = SL_Log_args_rows [OF "3.prems"(1) c]
  from "3.IH" [OF c [symmetric] step(1) r]
  have inv2: "session_inv N s2"
    and rows2: "table_rows (sqlite s2) @ buffered_rows s2 =
      table_rows (sqlite s1) @ buffered_rows s1 @ map (\<lambda>a. row_of (entry_of a)) acc1"
    by simp_all
  from "3.prems"(2) c r have s': "s' = s2"
    and acc: "acc = (if rc = SL_RESULT_SUCCESS \<and> gLogLevel s \<le> a_level a then a # acc1 else acc1)"
    by simp_all
  have "table_rows (sqlite s2) @ buffered_rows s2 =
      (table_rows (sqlite s1) @ buffered_rows s1) @ map (\<lambda>a. row_of (entry_of a)) acc1"
    using rows2 by simp
  also have "\<dots> = table_rows (sqlite s) @ buffered_rows s @ map (\<lambda>a. row_of (entry_of a)) acc"
    unfolding step(2) acc by simp
  finally show ?case using inv2 s' by simp
qed

text \<open>Accepted calls that find room are all stored, in order, without a call on the store.\<close>

lemma accepted_cong: "gLogLevel s' = gLogLevel s \<Longrightarrow> accepted s' a = accepted s a"
  by (simp add: accepted_def)

lemma run_ops_direct:
  "session_inv N s \<Longrightarrow> gSQLiteDatabase s \<Longrightarrow> \<forall>a\<in>set as. accepted s a \<Longrightarrow>
   gLogEntryCount s + length as \<le> N - 1 \<Longrightarrow>
   run_ops N (map OpLog as) s =
     (as, s \<lparr> gLogEntries := take (gLogEntryCount s) (gLogEntries s) @ map entry_of as @
                               replicate (N - (gLogEntryCount s + length as)) zero_entry,
               gLogEntryCount := gLogEntryCount s + length as \<rparr>)"
proof (induction as arbitrary: s)
  case Nil
  then have "take (gLogEntryCount s) (gLogEntries s) @
             replicate (N - gLogEntryCount s) zero_entry = gLogEntries s"
    by (metis append_take_drop_id session_inv_def)
  then show ?case by simp
next
  case (Cons a as)
  let ?c = "gLogEntryCount s"
  let ?s1 = "s \<lparr> gLogEntries := (gLogEntries s) [?c := entry_of a], gLogEntryCount := ?c + 1 \<rparr>"
  from Cons.prems have c: "?c < N - 1" and acc: "accepted s a" by simp_all
  have call: "SL_Log_args N a s = (SL_RESULT_SUCCESS, ?s1)"
    by (rule SL_Log_args_direct_zeroed [OF Cons.prems(1,2) acc c])
  from SL_Log_args_rows(1) [OF Cons.prems(1) call] have inv1: "session_inv N ?s1" .
  from Cons.prems(1) c have lt: "?c < length (gLogEntries s)" by (simp add: session_inv_def)
  have "run_ops N (map OpLog as) ?s1 =
     (as, ?s1 \<lparr> gLogEntries := take (gLogEntryCount ?s1) (gLogEntries ?s1) @ map entry_of as @
                               replicate (N - (gLogEntryCount ?s1 + length as)) zero_entry,
               gLogEntryCount := gLogEntryCount ?s1 + length as \<rparr>)"
    using Cons.prems by (intro Cons.IH inv1) (simp_all add: accepted_def)
  with call acc take_Suc_update [OF lt, of "entry_of a"] show ?case
    by (simp add: accepted_def)
qed

subsection \<open>Teardown and start-up\<close>

lemma close_finalize_simps:
  "table_rows (sqlite3_close_v2 db) = table_rows db"
  "table_rows (sqlite3_finalize db) = table_rows db"
  "trace (sqlite3_close_v2 db) = trace db @ [CloseV2]"
  "trace (sqlite3_finalize db) = trace db @ [Finalize]"
  "txn_open (sqlite3_close_v2 db) = False" "txn_rows (sqlite3_close_v2 db) = []"
  by (simp_all add: sqlite3_close_v2_def sqlite3_finalize_def called_void_def)

text \<open>A teardown that reports success has moved every buffered row to the table.\<close>

lemma SL_Terminate_OK_rows:
  assumes t: "SL_Terminate N s = (SL_RESULT_SUCCESS, s')"
  shows "table_rows (sqlite s') = table_rows (sqlite s) @ buffered_rows s"
proof -
  from t have db: "gSQLiteDatabase s"
    by (auto simp: SL_Terminate_def SL_RESULT_SUCCESS_def SL_RESULT_NOT_INITIALIZED_def
        SL_RESULT_RESERVED_START_def split: if_splits)
  show ?thesis
  proof (cases "0 < gLogEntryCount s")
    case False
    with t db show ?thesis
      by (auto simp: SL_Terminate_def Let_def buffered_rows_def close_finalize_simps)
  next
    case True
    obtain r1 s1 where pt: "SL_ProcessTransaction s = (r1, s1)"
      by (cases "SL_ProcessTransaction s")
    with t db True have r1: "r1 = SL_RESULT_SUCCESS"
      by (auto simp: SL_Terminate_def Let_def split: if_splits)
    from SL_ProcessTransaction_OK(1) [OF pt [unfolded r1 SL_RESULT_SUCCESS_def,
          folded SQLITE_OK_def]]
    have "table_rows (sqlite s1) = table_rows (sqlite s) @ buffered_rows s" .
    with t db True pt r1 show ?thesis
      by (auto simp: SL_Terminate_def Let_def memset_entries_def close_finalize_simps)
  qed
qed

subsection \<open>A store that lets every call through\<close>

lemma went_through_bind_text:
  "faults db = [] \<Longrightarrow> went_through (sqlite3_bind_text True i v db)"
  by (simp add: went_through_def sqlite3_bind_text_def called_def)

lemma went_through_bind_int:
  "faults db = [] \<Longrightarrow> went_through (sqlite3_bind_int True i v db)"
  by (simp add: went_through_def sqlite3_bind_int_def called_def)

lemma went_through_step:
  "faults db = [] \<Longrightarrow> went_through (eat_done (sqlite3_step_insert True db))"
  by (simp add: went_through_def sqlite3_step_insert_def eat_done_def called_def)

lemma went_through_reset: "faults db = [] \<Longrightarrow> went_through (sqlite3_reset db)"
  by (simp add: went_through_def sqlite3_reset_def called_def)

lemma went_through_when_ok:
  "went_through r \<Longrightarrow> (\<And>d. faults d = [] \<Longrightarrow> went_through (f d)) \<Longrightarrow>
   went_through (when_ok r f)"
  by (simp add: when_ok_def went_through_def)

lemma went_through_insert_row: "faults db = [] \<Longrightarrow> went_through (insert_row True e db)"
  unfolding insert_row_def Let_def
  by (intro went_through_when_ok went_through_bind_text went_through_bind_int
      went_through_step went_through_reset)

lemma went_through_insert_rows: "faults db = [] \<Longrightarrow> went_through (insert_rows True es db)"
proof (induction es arbitrary: db)
  case Nil
  then show ?case by (simp add: went_through_def)
next
  case (Cons e es)
  from went_through_insert_row [OF Cons.prems, of e] Cons.IH show ?case
    by (cases "insert_row True e db") (simp add: went_through_def)
qed

lemma SL_ProcessTransaction_healthy:
  assumes "gInsertStatement s" and "faults (sqlite s) = []" and "\<not> txn_open (sqlite s)"
  shows "fst (SL_ProcessTransaction s) = SQLITE_OK"
    and "faults (sqlite (snd (SL_ProcessTransaction s))) = []"
proof -
  obtain r1 db1 where b: "sqlite3_exec_begin (sqlite s) = (r1, db1)"
    by (cases "sqlite3_exec_begin (sqlite s)")
  with assms(2,3) have r1: "r1 = SQLITE_OK" and f1: "faults db1 = []" and o1: "txn_open db1"
    by (auto simp: sqlite3_exec_begin_def called_def)
  obtain r2 db2 where
    i: "insert_rows True (take (gLogEntryCount s) (gLogEntries s)) db1 = (r2, db2)"
    by (cases "insert_rows True (take (gLogEntryCount s) (gLogEntries s)) db1")
  from went_through_insert_rows [OF f1, of "take (gLogEntryCount s) (gLogEntries s)"] i
  have r2: "r2 = SQLITE_OK" and f2: "faults db2 = []" by (simp_all add: went_through_def)
  from in_txn_insert_rows [OF in_txn_refl [OF o1], of True
      "take (gLogEntryCount s) (gLogEntries s)"] i
  have o2: "txn_open db2" by (simp add: in_txn_def)
  from f2 o2 have e: "fst (sqlite3_exec_end db2) = SQLITE_OK"
    "faults (snd (sqlite3_exec_end db2)) = []"
    by (simp_all add: sqlite3_exec_end_def called_def)
  from b i r1 r2 e assms(1) show "fst (SL_ProcessTransaction s) = SQLITE_OK"
    and "faults (sqlite (snd (SL_ProcessTransaction s))) = []"
    by (auto simp: SL_ProcessTransaction_def split: prod.splits)
qed

lemma healthy_SL_Log_args:
  assumes h: "healthy N s"
  shows "healthy N (snd (SL_Log_args N a s))"
    and "accepted s a \<Longrightarrow> fst (SL_Log_args N a s) = SL_RESULT_SUCCESS"
proof -
  from h have inv: "session_inv N s" and db: "gSQLiteDatabase s" and st: "gInsertStatement s"
    and f: "faults (sqlite s) = []" and o: "\<not> txn_open (sqlite s)"
    by (simp_all add: healthy_def)
  from inv have N: "0 < N" by (simp add: session_inv_def)
  obtain rc s' where c: "SL_Log_args N a s = (rc, s')" by (cases "SL_Log_args N a s")
  note inv' = SL_Log_args_rows(1) [OF inv c]
  have "healthy N s' \<and> (accepted s a \<longrightarrow> rc = SL_RESULT_SUCCESS)"
  proof (cases "accepted s a")
    case False
    with SL_Log_args_not_accepted(1) [of s a N] c h show ?thesis by simp
  next
    case acc: True
    show ?thesis
    proof (cases "gLogEntryCount s < N - 1")
      case True
      from SL_Log_args_direct_zeroed [OF inv db acc True] c inv' db st f o show ?thesis
        by (auto simp: healthy_def)
    next
      case False
      obtain r1 s1 where pt: "SL_ProcessTransaction s = (r1, s1)"
        by (cases "SL_ProcessTransaction s")
      from SL_ProcessTransaction_healthy [OF st f o] pt
      have r1: "r1 = SL_RESULT_SUCCESS" and f1: "faults (sqlite s1) = []"
        by (simp_all add: SL_RESULT_SUCCESS_def SQLITE_OK_def)
      from SL_ProcessTransaction_vars [of s] pt
      have s1: "s1 = s \<lparr> sqlite := sqlite s1 \<rparr>" by simp
      from SL_ProcessTransaction_OK(3) [OF pt [unfolded r1 SL_RESULT_SUCCESS_def,
            folded SQLITE_OK_def]]
      have o1: "\<not> txn_open (sqlite s1)" .
      from SL_Log_args_flush_OK [OF N db acc False pt [unfolded r1]] c
      have "rc = SL_RESULT_SUCCESS"
        and "s' = s1 \<lparr> gLogEntryCount := 1,
                      gLogEntries := (replicate N zero_entry) [0 := entry_of a] \<rparr>"
        by simp_all
      moreover have "gSQLiteDatabase s1" and "gInsertStatement s1"
        using db st by (subst s1, simp)+
      ultimately show ?thesis using inv' f1 o1
        by (simp add: healthy_def)
    qed
  qed
  with c show "healthy N (snd (SL_Log_args N a s))"
    and "accepted s a \<Longrightarrow> fst (SL_Log_args N a s) = SL_RESULT_SUCCESS" by simp_all
qed

text \<open>On such a store every call that passes the checks and the gate is accepted.\<close>

lemma healthy_run_ops:
  "healthy N s \<Longrightarrow> \<forall>a\<in>set as. accepted s a \<Longrightarrow>
   fst (run_ops N (map OpLog as) s) = as \<and> healthy N (snd (run_ops N (map OpLog as) s))"
proof (induction as arbitrary: s)
  case Nil
  then show ?case by simp
next
  case (Cons a as)
  obtain rc s1 where c: "SL_Log_args N a s = (rc, s1)" by (cases "SL_Log_args N a s")
  from healthy_SL_Log_args [OF Cons.prems(1), of a] c Cons.prems(2)
  have h1: "healthy N s1" and rc: "rc = SL_RESULT_SUCCESS" by simp_all
  from SL_Log_args_gLogLevel [of N a s] c have "gLogLevel s1 = gLogLevel s" by simp
  with Cons.prems(2) have "\<forall>a\<in>set as. accepted s1 a" by (simp add: accepted_def)
  from Cons.IH [OF h1 this] c rc Cons.prems(2) show ?case
    by (cases "run_ops N (map OpLog as) s1") (simp add: accepted_def)
qed

lemma healthy_SL_Terminate: "healthy N s \<Longrightarrow> fst (SL_Terminate N s) = SL_RESULT_SUCCESS"
  using SL_ProcessTransaction_healthy(1) [of s]
  by (cases "SL_ProcessTransaction s")
    (simp add: healthy_def SL_Terminate_def Let_def SL_RESULT_SUCCESS_def SQLITE_OK_def)

subsection \<open>Start-up\<close>

lemma SL_CreateView_vars:
  "gLogLevel (snd (SL_CreateView s)) = gLogLevel s"
  "gLogEntryCount (snd (SL_CreateView s)) = gLogEntryCount s"
  "gLogEntries (snd (SL_CreateView s)) = gLogEntries s"
  "gSQLiteDatabase (snd (SL_CreateView s)) = gSQLiteDatabase s"
  "gInsertStatement (snd (SL_CreateView s)) = gInsertStatement s"
  by (simp_all add: SL_CreateView_def split: prod.splits)

lemma SL_CreateTable_vars:
  "gLogLevel (snd (SL_CreateTable now s)) = gLogLevel s"
  "gLogEntryCount (snd (SL_CreateTable now s)) = gLogEntryCount s"
  "gLogEntries (snd (SL_CreateTable now s)) = gLogEntries s"
  "gSQLiteDatabase (snd (SL_CreateTable now s)) = gSQLiteDatabase s"
  "gInsertStatement (snd (SL_CreateTable now s)) = gInsertStatement s"
  by (simp_all add: SL_CreateTable_def Let_def split: prod.splits)

lemma when_ok_CreateView_vars:
  "gLogLevel (snd (when_ok r SL_CreateView)) = gLogLevel (snd r)"
  "gLogEntryCount (snd (when_ok r SL_CreateView)) = gLogEntryCount (snd r)"
  "gLogEntries (snd (when_ok r SL_CreateView)) = gLogEntries (snd r)"
  "gSQLiteDatabase (snd (when_ok r SL_CreateView)) = gSQLiteDatabase (snd r)"
  "gInsertStatement (snd (when_ok r SL_CreateView)) = gInsertStatement (snd r)"
  by (simp_all add: when_ok_def SL_CreateView_vars)

lemma SL_CreateView_table_rows:
  "table_rows (sqlite (snd (SL_CreateView s))) = table_rows (sqlite s)"
  by (simp add: SL_CreateView_def sqlite3_prepare_v2_def sqlite3_step_schema_def
      sqlite3_finalize_def called_def called_void_def eat_done_def split: prod.splits)

lemma SL_CreateTable_table_rows:
  "table_rows (sqlite (snd (SL_CreateTable now s))) = table_rows (sqlite s)"
  by (simp add: SL_CreateTable_def sqlite3_prepare_v2_def sqlite3_step_schema_def
      sqlite3_finalize_def called_def called_void_def eat_done_def Let_def split: prod.splits)

lemma when_ok_CreateView_table_rows:
  "table_rows (sqlite (snd (when_ok r SL_CreateView))) = table_rows (sqlite (snd r))"
  by (simp add: when_ok_def SL_CreateView_table_rows)

lemma SL_Initialize_table_rows:
  "table_rows (sqlite (snd (SL_Initialize N now path s))) = table_rows (sqlite s)"
  by (simp add: SL_Initialize_def Let_def memset_entries_def SL_CreateView_table_rows
      SL_CreateTable_table_rows when_ok_CreateView_table_rows sqlite3_open_v2_def
      sqlite3_prepare_v2_def called_def split: prod.splits option.splits)

text \<open>\<open>SL_Initialize\<close> writes neither the threshold nor the entry count.\<close>

lemma SL_Initialize_gLogLevel:
  "gLogLevel (snd (SL_Initialize N now path s)) = gLogLevel s"
  by (simp add: SL_Initialize_def Let_def memset_entries_def SL_CreateView_vars
      SL_CreateTable_vars when_ok_CreateView_vars split: prod.splits option.splits)

lemma SL_Initialize_gLogEntryCount:
  "gLogEntryCount (snd (SL_Initialize N now path s)) = gLogEntryCount s"
  by (simp add: SL_Initialize_def Let_def memset_entries_def SL_CreateView_vars
      SL_CreateTable_vars when_ok_CreateView_vars split: prod.splits option.splits)

lemma schema_ok_CreateView:
  "faults (sqlite s) = [] \<Longrightarrow> \<not> txn_open (sqlite s) \<Longrightarrow> txn_rows (sqlite s) = [] \<Longrightarrow>
   schema_ok (SL_CreateView s)"
  by (simp add: schema_ok_def SL_CreateView_def sqlite3_prepare_v2_def sqlite3_step_schema_def
      sqlite3_finalize_def called_def called_void_def eat_done_def)

lemma schema_ok_CreateTable:
  "faults (sqlite s) = [] \<Longrightarrow> \<not> txn_open (sqlite s) \<Longrightarrow> txn_rows (sqlite s) = [] \<Longrightarrow>
   schema_ok (SL_CreateTable now s)"
  by (simp add: schema_ok_def SL_CreateTable_def sqlite3_prepare_v2_def sqlite3_step_schema_def
      sqlite3_finalize_def called_def called_void_def eat_done_def Let_def)

lemma schema_ok_when_ok: "schema_ok r \<Longrightarrow> schema_ok (when_ok r SL_CreateView)"
  by (simp add: when_ok_def) (simp add: schema_ok_def schema_ok_CreateView [unfolded schema_ok_def])

lemma SL_Initialize_OK:
  assumes "strlen p \<noteq> 0" and "\<not> gSQLiteDatabase s" and "faults (sqlite s) = []"
  shows "fst (SL_Initialize N now (Some p) s) = SL_RESULT_SUCCESS"
    and "gLogEntries (snd (SL_Initialize N now (Some p) s)) = replicate N zero_entry"
    and "gSQLiteDatabase (snd (SL_Initialize N now (Some p) s))"
    and "gInsertStatement (snd (SL_Initialize N now (Some p) s))"
    and "faults (sqlite (snd (SL_Initialize N now (Some p) s))) = []"
    and "\<not> txn_open (sqlite (snd (SL_Initialize N now (Some p) s)))"
    and "txn_rows (sqlite (snd (SL_Initialize N now (Some p) s))) = []"
proof -
  let ?s1 = "s \<lparr> gSQLiteDatabase := True,
                 sqlite := (snd (called OpenV2 (sqlite s))) \<lparr> txn_rows := [], txn_open := False \<rparr> \<rparr>"
  from assms(3) have op: "sqlite3_open_v2 (sqlite s) = (SQLITE_OK, True, sqlite ?s1)"
    by (simp add: sqlite3_open_v2_def called_def)
  have f1: "faults (sqlite ?s1) = []" using assms(3) by (simp add: called_def)
  let ?t = "SL_CreateTable now ?s1"
  have t: "schema_ok ?t" using f1 by (intro schema_ok_CreateTable) simp_all
  let ?v = "when_ok (when_ok (when_ok (when_ok (SL_CreateView (snd ?t)) SL_CreateView)
              SL_CreateView) SL_CreateView) SL_CreateView"
  have "schema_ok (SL_CreateView (snd ?t))"
    using t by (intro schema_ok_CreateView) (simp_all add: schema_ok_def)
  then have v: "schema_ok ?v" by (intro schema_ok_when_ok)
  have db: "gSQLiteDatabase (snd ?v)"
    by (simp add: when_ok_CreateView_vars SL_CreateView_vars SL_CreateTable_vars)
  let ?r = "SL_Initialize N now (Some p) s"
  let ?p = "sqlite3_prepare_v2 (sqlite (snd ?v))"
  have r: "?r = (fst ?p, (memset_entries N (snd ?v))
                   \<lparr> gInsertStatement := (fst ?p = SQLITE_OK), sqlite := snd ?p \<rparr>)"
    using assms(1,2) t v
    by (simp add: SL_Initialize_def op Let_def schema_ok_def SL_RESULT_SUCCESS_def SQLITE_OK_def
        memset_entries_def case_prod_beta)
  from v have pr: "fst ?p = SQLITE_OK" "faults (snd ?p) = []"
    "\<not> txn_open (snd ?p)" "txn_rows (snd ?p) = []"
    by (simp_all add: schema_ok_def sqlite3_prepare_v2_def called_def)
  show "fst ?r = SL_RESULT_SUCCESS" using pr(1)
    by (simp add: r SL_RESULT_SUCCESS_def SQLITE_OK_def)
  show "gLogEntries (snd ?r) = replicate N zero_entry"
    by (simp add: r memset_entries_def)
  show "gSQLiteDatabase (snd ?r)" using db
    by (simp add: r memset_entries_def)
  show "gInsertStatement (snd ?r)" using pr(1)
    by (simp add: r)
  show "faults (sqlite (snd ?r)) = []" using pr(2)
    by (simp add: r)
  show "\<not> txn_open (sqlite (snd ?r))" using pr(3)
    by (simp add: r)
  show "txn_rows (sqlite (snd ?r)) = []" using pr(4)
    by (simp add: r)
qed

text \<open>
  A first \<open>SL_Initialize\<close> on a store that lets every call through succeeds and
  leaves a healthy session with an empty buffer.
\<close>

lemma SL_Initialize_healthy:
  assumes "0 < N" and "strlen p \<noteq> 0" and "\<not> gSQLiteDatabase s" and "faults (sqlite s) = []"
    and "gLogEntryCount s \<le> N"
  shows "healthy N (snd (SL_Initialize N now (Some p) s))"
  using SL_Initialize_OK [OF assms(2,3,4), of N now] assms(1,5)
  by (simp add: healthy_def session_inv_def SL_Initialize_gLogEntryCount)

subsection \<open>A teardown whose flush cannot begin\<close>

lemma SL_Terminate_begin_fails:
  assumes "gSQLiteDatabase s" and "0 < gLogEntryCount s" and "faults (sqlite s) = f # fs"
    and "f \<noteq> SQLITE_OK"
  shows "fst (SL_Terminate N s) = f"
    and "gLogEntryCount (snd (SL_Terminate N s)) = gLogEntryCount s"
    and "gLogEntries (snd (SL_Terminate N s)) = gLogEntries s"
    and "\<not> gSQLiteDatabase (snd (SL_Terminate N s))"
    and "faults (sqlite (snd (SL_Terminate N s))) = fs"
    and "gLogLevel (snd (SL_Terminate N s)) = gLogLevel s"
proof -
  from assms(3,4) have pt: "SL_ProcessTransaction s =
      (f, s \<lparr> sqlite := snd (called ExecBegin (sqlite s)) \<rparr>)"
    by (simp add: SL_ProcessTransaction_def sqlite3_exec_begin_def called_def)
  have fs: "faults (snd (called ExecBegin (sqlite s))) = fs"
    using assms(3) by (simp add: called_def)
  from assms(1,2,4) show "fst (SL_Terminate N s) = f"
    and "gLogEntryCount (snd (SL_Terminate N s)) = gLogEntryCount s"
    and "gLogEntries (snd (SL_Terminate N s)) = gLogEntries s"
    and "\<not> gSQLiteDatabase (snd (SL_Terminate N s))"
    and "faults (sqlite (snd (SL_Terminate N s))) = fs"
    and "gLogLevel (snd (SL_Terminate N s)) = gLogLevel s"
    by (simp_all add: SL_Terminate_def pt Let_def SL_RESULT_SUCCESS_def SQLITE_OK_def fs
        sqlite3_close_v2_def sqlite3_finalize_def called_void_def)
qed

subsection \<open>The example session\<close>

lemma demo_session_healthy: "healthy 3 demo_session"
  unfolding demo_session_def
  by (rule SL_Initialize_healthy) (simp_all add: initial_state_def empty_store_def strlen_def)

lemma demo_session_vars:
  "gLogLevel demo_session = eSL_LogLevel_Info" "gLogEntryCount demo_session = 0"
  "table_rows (sqlite demo_session) = []"
  by (simp_all add: demo_session_def SL_Initialize_gLogLevel SL_Initialize_gLogEntryCount
      SL_Initialize_table_rows initial_state_def empty_store_def)

lemma demo_session_inv: "session_inv 3 demo_session" "gSQLiteDatabase demo_session"
  using demo_session_healthy by (simp_all add: healthy_def)

lemma demo_calls_accepted: "\<forall>a\<in>set demo_calls. accepted demo_session a"
  by (simp add: demo_calls_def demo_call_def accepted_def demo_session_vars strlen_def
      eSL_LogLevel_Diagnostic_def eSL_LogLevel_Info_def eSL_LogLevel_Warning_def
      eSL_LogLevel_Error_def eSL_LogLevel_None_def)


subsection \<open>A store that follows a script of result codes\<close>

lemma when_ok_simps:
  "when_ok (SQLITE_OK, d) f = f d"
  "rc \<noteq> SQLITE_OK \<Longrightarrow> when_ok (rc, d) f = (rc, d)"
  by (simp_all add: when_ok_def)

lemma scripted_begin:
  assumes "faults db = 0 # fs" and "\<not> txn_open db"
  obtains db' where "sqlite3_exec_begin db = (SQLITE_OK, db')" and "faults db' = fs"
  using assms by (simp add: sqlite3_exec_begin_def called_def SQLITE_OK_def)

lemma scripted_bind_text:
  assumes "faults db = 0 # fs"
  obtains db' where "sqlite3_bind_text True i v db = (SQLITE_OK, db')" and "faults db' = fs"
  using assms by (simp add: sqlite3_bind_text_def called_def SQLITE_OK_def)

lemma scripted_bind_int:
  assumes "faults db = 0 # fs"
  obtains db' where "sqlite3_bind_int True i v db = (SQLITE_OK, db')" and "faults db' = fs"
  using assms by (simp add: sqlite3_bind_int_def called_def SQLITE_OK_def)

lemma scripted_step:
  assumes "faults db = 0 # fs"
  obtains db' where "eat_done (sqlite3_step_insert True db) = (SQLITE_OK, db')"
    and "faults db' = fs"
  using assms
  by (simp add: sqlite3_step_insert_def eat_done_def called_def SQLITE_OK_def SQLITE_DONE_def)

lemma scripted_step_fails:
  assumes "faults db = f # fs" and "f \<noteq> SQLITE_OK" and "f \<noteq> SQLITE_DONE"
  shows "fst (eat_done (sqlite3_step_insert True db)) = f"
  using assms
  by (simp add: sqlite3_step_insert_def eat_done_def called_def)

lemma scripted_reset:
  assumes "faults db = 0 # fs"
  obtains db' where "sqlite3_reset db = (SQLITE_OK, db')" and "faults db' = fs"
  using assms by (simp add: sqlite3_reset_def called_def SQLITE_OK_def)

text \<open>Ten codes \<open>SQLITE_OK\<close> let one row through.\<close>

lemma scripted_insert_row:
  assumes "faults db = 0 # 0 # 0 # 0 # 0 # 0 # 0 # 0 # 0 # 0 # fs"
  obtains db' where "insert_row True e db = (SQLITE_OK, db')" and "faults db' = fs"
proof -
  from assms obtain d1 where
    b1: "sqlite3_bind_text True 1 (timestamp_text e) db = (SQLITE_OK, d1)"
    and f1: "faults d1 = 0 # 0 # 0 # 0 # 0 # 0 # 0 # 0 # 0 # fs"
    by (rule scripted_bind_text)
  from f1 obtain d2 where
    b2: "sqlite3_bind_text True 2 (message_text e) d1 = (SQLITE_OK, d2)"
    and f2: "faults d2 = 0 # 0 # 0 # 0 # 0 # 0 # 0 # 0 # fs"
    by (rule scripted_bind_text)
  from f2 obtain d3 where
    b3: "sqlite3_bind_text True 3 (level_text e) d2 = (SQLITE_OK, d3)"
    and f3: "faults d3 = 0 # 0 # 0 # 0 # 0 # 0 # 0 # fs"
    by (rule scripted_bind_text)
  from f3 obtain d4 where
    b4: "sqlite3_bind_text True 4 (fileName_text e) d3 = (SQLITE_OK, d4)"
    and f4: "faults d4 = 0 # 0 # 0 # 0 # 0 # 0 # fs"
    by (rule scripted_bind_text)
  from f4 obtain d5 where
    b5: "sqlite3_bind_text True 5 (functionName_text e) d4 = (SQLITE_OK, d5)"
    and f5: "faults d5 = 0 # 0 # 0 # 0 # 0 # fs"
    by (rule scripted_bind_text)
  from f5 obtain d6 where
    b6: "sqlite3_bind_int True 6 (sint (lineNumber e)) d5 = (SQLITE_OK, d6)"
    and f6: "faults d6 = 0 # 0 # 0 # 0 # fs"
    by (rule scripted_bind_int)
  from f6 obtain d7 where
    b7: "sqlite3_bind_text True 7 (tag_text e) d6 = (SQLITE_OK, d7)"
    and f7: "faults d7 = 0 # 0 # 0 # fs"
    by (rule scripted_bind_text)
  from f7 obtain d8 where
    b8: "sqlite3_bind_text True 8 (supplementalData_text e) d7 = (SQLITE_OK, d8)"
    and f8: "faults d8 = 0 # 0 # fs"
    by (rule scripted_bind_text)
  from f8 obtain d9 where
    st: "eat_done (sqlite3_step_insert True d8) = (SQLITE_OK, d9)" and f9: "faults d9 = 0 # fs"
    by (rule scripted_step)
  from f9 obtain d10 where rs: "sqlite3_reset d9 = (SQLITE_OK, d10)" and f10: "faults d10 = fs"
    by (rule scripted_reset)
  have "insert_row True e db = (SQLITE_OK, d10)"
    by (simp only: insert_row_def Let_def when_ok_simps b1 b2 b3 b4 b5 b6 b7 b8 st rs)
  then show ?thesis using f10 by (rule that)
qed

text \<open>Eight codes \<open>SQLITE_OK\<close> and an error code: the row fails at its \<open>sqlite3_step\<close>.\<close>

lemma scripted_insert_row_step_fails:
  assumes "faults db = 0 # 0 # 0 # 0 # 0 # 0 # 0 # 0 # f # fs"
    and "f \<noteq> SQLITE_OK" and "f \<noteq> SQLITE_DONE"
  shows "fst (insert_row True e db) = f"
proof -
  from assms(1) obtain d1 where
    b1: "sqlite3_bind_text True 1 (timestamp_text e) db = (SQLITE_OK, d1)"
    and f1: "faults d1 = 0 # 0 # 0 # 0 # 0 # 0 # 0 # f # fs"
    by (rule scripted_bind_text)
  from f1 obtain d2 where
    b2: "sqlite3_bind_text True 2 (message_text e) d1 = (SQLITE_OK, d2)"
    and f2: "faults d2 = 0 # 0 # 0 # 0 # 0 # 0 # f # fs"
    by (rule scripted_bind_text)
  from f2 obtain d3 where
    b3: "sqlite3_bind_text True 3 (level_text e) d2 = (SQLITE_OK, d3)"
    and f3: "faults d3 = 0 # 0 # 0 # 0 # 0 # f # fs"
    by (rule scripted_bind_text)
  from f3 obtain d4 where
    b4: "sqlite3_bind_text True 4 (fileName_text e) d3 = (SQLITE_OK, d4)"
    and f4: "faults d4 = 0 # 0 # 0 # 0 # f # fs"
    by (rule scripted_bind_text)
  from f4 obtain d5 where
    b5: "sqlite3_bind_text True 5 (functionName_text e) d4 = (SQLITE_OK, d5)"
    and f5: "faults d5 = 0 # 0 # 0 # f # fs"
    by (rule scripted_bind_text)
  from f5 obtain d6 where
    b6: "sqlite3_bind_int True 6 (sint (lineNumber e)) d5 = (SQLITE_OK, d6)"
    and f6: "faults d6 = 0 # 0 # f # fs"
    by (rule scripted_bind_int)
  from f6 obtain d7 where
    b7: "sqlite3_bind_text True 7 (tag_text e) d6 = (SQLITE_OK, d7)"
    and f7: "faults d7 = 0 # f # fs"
    by (rule scripted_bind_text)
  from f7 obtain d8 where
    b8: "sqlite3_bind_text True 8 (supplementalData_text e) d7 = (SQLITE_OK, d8)"
    and f8: "faults d8 = f # fs"
    by (rule scripted_bind_text)
  obtain r9 d9 where st: "eat_done (sqlite3_step_insert True d8) = (r9, d9)"
    by (cases "eat_done (sqlite3_step_insert True d8)")
  with scripted_step_fails [OF f8 assms(2,3)] have r9: "r9 = f" by simp
  have "insert_row True e db = (f, d9)"
    by (simp only: insert_row_def Let_def when_ok_simps(1) when_ok_simps(2) [OF assms(2)]
        b1 b2 b3 b4 b5 b6 b7 b8 st r9)
  then show ?thesis by simp
qed



lemma full_session_eq:
  "full_session = demo_session \<lparr> gLogEntries := map entry_of (take 2 demo_calls) @ [zero_entry],
                                 gLogEntryCount := 2 \<rparr>"
  using run_ops_direct [OF demo_session_inv, of "take 2 demo_calls"] demo_calls_accepted
  by (simp add: full_session_def demo_session_vars demo_calls_def)

lemma full_session_vars:
  "gSQLiteDatabase full_session" "gInsertStatement full_session"
  "gLogEntryCount full_session = 2" "gLogLevel full_session = eSL_LogLevel_Info"
  "\<not> txn_open (sqlite full_session)" "table_rows (sqlite full_session) = []"
  "gLogEntries full_session = map entry_of (take 2 demo_calls) @ [zero_entry]"
  using demo_session_healthy
  by (simp_all add: full_session_eq healthy_def demo_session_vars)

subsection \<open>Text of a field, the threshold, single calls\<close>

lemma strncpy_short:
  assumes "length src < bound - 1" and "length dst = bound"
  shows "strncpy dst src (copy_count src bound) = src @ drop (length src) dst"
  using assms by (simp add: strncpy_def copy_count_def strlen_def)

text \<open>
  A text that fits a zeroed field is followed by terminators up to the end of the field,
  and is what is read back from the first byte of the field.
\<close>

lemma strncpy_fits:
  assumes "length src < bound"
  shows "strncpy (replicate bound NUL) src (copy_count src bound) =
           src @ replicate (bound - length src) NUL"
proof (cases "length src < bound - 1")
  case True
  then show ?thesis by (simp add: strncpy_def copy_count_def strlen_def)
next
  case False
  with assms have "bound = Suc (length src)" by simp
  then show ?thesis by (simp add: strncpy_def copy_count_def strlen_def)
qed

lemma copy_field_fits:
  assumes "fits_opt bound x" and "0 < bound"
  shows "copy_field (replicate bound NUL) x bound =
           opt_text x @ replicate (bound - length (opt_text x)) NUL"
  using assms
  by (cases x) (simp_all add: copy_field_def opt_text_def fits_opt_def fits_def strncpy_fits)

lemma read_on_terminated:
  assumes "NUL \<notin> set cs" and "0 < k"
  shows "read_on ((cs @ replicate k NUL) # rest) = SqlText cs"
proof -
  from assms(2) obtain j where k: "k = Suc j" by (cases k) simp_all
  have "takeWhile (\<lambda>c. c \<noteq> NUL) (cs @ NUL # replicate j NUL @ concat rest) = cs"
    using assms(1) by (induction cs) auto
  then show ?thesis by (simp add: read_on_def k)
qed

lemma over_Nil: "over [] f = f"
  by (simp add: over_def)

lemma timestamp_fits:
  assumes "fits SL_TIMESTAMP_STRING_LENGTH now"
  shows "over (SL_GetTimestamp now) (replicate SL_TIMESTAMP_STRING_LENGTH NUL) =
           now @ replicate (SL_TIMESTAMP_STRING_LENGTH - length now) NUL"
    and "past (SL_GetTimestamp now) (replicate SL_TIMESTAMP_STRING_LENGTH NUL) = []"
proof -
  from assms have len: "length now < SL_TIMESTAMP_STRING_LENGTH"
    by (simp add: fits_def)
  then have now: "clock_text now = now"
    by (simp add: clock_text_def SL_TIMESTAMP_STRING_LENGTH_def)
  from len obtain j where j: "SL_TIMESTAMP_STRING_LENGTH - length now = Suc j"
    by (cases "SL_TIMESTAMP_STRING_LENGTH - length now") simp_all
  then have "SL_TIMESTAMP_STRING_LENGTH - Suc (length now) = j" by simp
  with j len show "over (SL_GetTimestamp now) (replicate SL_TIMESTAMP_STRING_LENGTH NUL) =
           now @ replicate (SL_TIMESTAMP_STRING_LENGTH - length now) NUL"
    by (simp add: over_def SL_GetTimestamp_def now)
  from len show "past (SL_GetTimestamp now) (replicate SL_TIMESTAMP_STRING_LENGTH NUL) = []"
    by (simp add: past_def SL_GetTimestamp_def now)
qed

text \<open>The labels of the levels fit the level field.\<close>

lemma level_string_fits: "fits SL_LEVEL_STRING_LENGTH (level_string lvl)"
  by (simp add: fits_def level_string_def SL_LEVEL_STRING_LENGTH_def NUL_def
      kSL_DiagnosticLevelString_def kSL_DetailLevelString_def kSL_InfoLevelString_def
      kSL_WarningLevelString_def kSL_ErrorLevelString_def kSL_NoneLevelString_def)

lemma level_of_entry:
  "level (entry_of a) =
     level_string (a_level a) @
     replicate (SL_LEVEL_STRING_LENGTH - length (level_string (a_level a))) NUL"
  using level_string_fits [of "a_level a"]
  by (simp add: entry_of_def fill_entry_def zero_entry_def fits_def strncpy_fits)

text \<open>The level column of an entry is the label of the level of its call.\<close>

lemma level_text_entry_of: "level_text (entry_of a) = SqlText (level_string (a_level a))"
proof -
  from level_string_fits [of "a_level a"]
  have "NUL \<notin> set (level_string (a_level a))"
    and "0 < SL_LEVEL_STRING_LENGTH - length (level_string (a_level a))"
    by (simp_all add: fits_def)
  then show ?thesis
    unfolding level_text_def level_of_entry by (rule read_on_terminated)
qed

lemma level_string_None: "level_string eSL_LogLevel_None = ''None''"
  by (simp add: level_string_def kSL_NoneLevelString_def eSL_LogLevel_None_def
      eSL_LogLevel_Diagnostic_def eSL_LogLevel_Detail_def eSL_LogLevel_Info_def
      eSL_LogLevel_Warning_def eSL_LogLevel_Error_def)

text \<open>
  The message field of an entry begins with the message of its call, cut at the length
  of the field.
\<close>

lemma message_of_entry:
  assumes "a_message a = Some m"
  shows "take (strlen m) (message (entry_of a)) = take SL_MESSAGE_STRING_LENGTH m"
proof -
  let ?X = "over (past (SL_GetTimestamp (a_now a)) (replicate SL_TIMESTAMP_STRING_LENGTH NUL))
              (replicate SL_MESSAGE_STRING_LENGTH NUL)"
  have len: "length ?X = SL_MESSAGE_STRING_LENGTH" by (simp add: over_def)
  have msg: "message (entry_of a) = strncpy ?X m (copy_count m SL_MESSAGE_STRING_LENGTH)"
    using assms by (simp add: entry_of_def fill_entry_def zero_entry_def)
  show ?thesis
  proof (cases "length m < SL_MESSAGE_STRING_LENGTH - 1")
    case True
    then show ?thesis
      by (simp add: msg strncpy_def copy_count_def strlen_def)
  next
    case False
    then show ?thesis
      using len by (simp add: msg strncpy_def copy_count_def strlen_def min_def)
  qed
qed

text \<open>The row of a call whose texts fit their fields holds the arguments of the call.\<close>

lemma row_of_fitting:
  assumes "well_formed a"
  shows "row_of (entry_of a) = call_row a"
proof -
  note sizes = SL_TIMESTAMP_STRING_LENGTH_def SL_MESSAGE_STRING_LENGTH_def
    SL_LEVEL_STRING_LENGTH_def SL_FILE_NAME_STRING_LENGTH_def
    SL_FUNCTION_NAME_STRING_LENGTH_def SL_TAG_STRING_LENGTH_def
    SL_SUPPLEMENTAL_DATA_STRING_LENGTH_def
  from assms have now: "fits SL_TIMESTAMP_STRING_LENGTH (a_now a)"
    and m: "fits_opt SL_MESSAGE_STRING_LENGTH (a_message a)"
    and fi: "fits_opt SL_FILE_NAME_STRING_LENGTH (a_fileName a)"
    and fu: "fits_opt SL_FUNCTION_NAME_STRING_LENGTH (a_functionName a)"
    and tg: "fits_opt SL_TAG_STRING_LENGTH (a_tag a)"
    and su: "fits_opt SL_SUPPLEMENTAL_DATA_STRING_LENGTH (a_supplementalData a)"
    by (simp_all add: well_formed_def)
  have ok: "NUL \<notin> set (opt_text x) \<and> 0 < bound - length (opt_text x)"
    if "fits_opt bound x" and "0 < bound" for bound x
    using that by (cases x) (simp_all add: fits_opt_def fits_def opt_text_def)
  have ts: "timestamp (entry_of a) =
      a_now a @ replicate (SL_TIMESTAMP_STRING_LENGTH - length (a_now a)) NUL"
    by (simp add: entry_of_def fill_entry_def zero_entry_def timestamp_fits [OF now])
  have "message (entry_of a) =
      copy_field (replicate SL_MESSAGE_STRING_LENGTH NUL) (Some (opt_text (a_message a)))
        SL_MESSAGE_STRING_LENGTH"
    by (cases "a_message a")
      (simp_all add: entry_of_def fill_entry_def zero_entry_def timestamp_fits [OF now]
        over_Nil copy_field_def opt_text_def)
  moreover have "fits_opt SL_MESSAGE_STRING_LENGTH (Some (opt_text (a_message a)))"
    using m by (cases "a_message a") (simp_all add: fits_opt_def fits_def opt_text_def sizes)
  ultimately have ms: "message (entry_of a) =
      opt_text (a_message a) @
      replicate (SL_MESSAGE_STRING_LENGTH - length (opt_text (a_message a))) NUL"
    using copy_field_fits [of SL_MESSAGE_STRING_LENGTH "Some (opt_text (a_message a))"]
    by (simp add: opt_text_def sizes)
  have fn: "fileName (entry_of a) =
      opt_text (a_fileName a) @
      replicate (SL_FILE_NAME_STRING_LENGTH - length (opt_text (a_fileName a))) NUL"
    using copy_field_fits [OF fi]
    by (simp add: entry_of_def fill_entry_def zero_entry_def sizes)
  have fu': "functionName (entry_of a) =
      opt_text (a_functionName a) @
      replicate (SL_FUNCTION_NAME_STRING_LENGTH - length (opt_text (a_functionName a))) NUL"
    using copy_field_fits [OF fu]
    by (simp add: entry_of_def fill_entry_def zero_entry_def sizes)
  have tg': "tag (entry_of a) =
      opt_text (a_tag a) @ replicate (SL_TAG_STRING_LENGTH - length (opt_text (a_tag a))) NUL"
    using copy_field_fits [OF tg]
    by (simp add: entry_of_def fill_entry_def zero_entry_def sizes)
  have su': "supplementalData (entry_of a) =
      opt_text (a_supplementalData a) @
      replicate (SL_SUPPLEMENTAL_DATA_STRING_LENGTH - length (opt_text (a_supplementalData a))) NUL"
    using copy_field_fits [OF su]
    by (simp add: entry_of_def fill_entry_def zero_entry_def sizes)
  have ln: "lineNumber (entry_of a) = a_lineNumber a"
    by (simp add: entry_of_def fill_entry_def)
  have "timestamp_text (entry_of a) = SqlText (a_now a)"
    unfolding timestamp_text_def ts
    using now by (intro read_on_terminated) (simp_all add: fits_def)
  moreover have "message_text (entry_of a) = SqlText (opt_text (a_message a))"
    unfolding message_text_def ms
    using ok [OF m] by (intro read_on_terminated) (simp_all add: sizes)
  moreover have "fileName_text (entry_of a) = SqlText (opt_text (a_fileName a))"
    unfolding fileName_text_def fn
    using ok [OF fi] by (intro read_on_terminated) (simp_all add: sizes)
  moreover have "functionName_text (entry_of a) = SqlText (opt_text (a_functionName a))"
    unfolding functionName_text_def fu'
    using ok [OF fu] by (intro read_on_terminated) (simp_all add: sizes)
  moreover have "tag_text (entry_of a) = SqlText (opt_text (a_tag a))"
    unfolding tag_text_def tg'
    using ok [OF tg] by (intro read_on_terminated) (simp_all add: sizes)
  moreover have "supplementalData_text (entry_of a) = SqlText (opt_text (a_supplementalData a))"
    unfolding supplementalData_text_def su'
    using ok [OF su] by (intro read_on_terminated) (simp_all add: sizes)
  ultimately show ?thesis
    by (simp add: row_of_def call_row_def level_text_entry_of ln)
qed

text \<open>A zeroed slot is bound as a row of empty texts and the line number 0.\<close>

lemma row_of_zero_entry:
  "row_of zero_entry =
     [SqlText [], SqlText [], SqlText [], SqlText [], SqlText [], SqlInt 0, SqlText [],
      SqlText []]"
proof -
  have z: "read_on (replicate k NUL # rest) = SqlText []" if "0 < k" for k rest
    using read_on_terminated [of "[]" k rest] that by simp
  show ?thesis
    by (simp add: row_of_def zero_entry_def timestamp_text_def message_text_def level_text_def
        fileName_text_def functionName_text_def tag_text_def supplementalData_text_def
        SL_TIMESTAMP_STRING_LENGTH_def SL_MESSAGE_STRING_LENGTH_def SL_LEVEL_STRING_LENGTH_def
        SL_FILE_NAME_STRING_LENGTH_def SL_FUNCTION_NAME_STRING_LENGTH_def
        SL_TAG_STRING_LENGTH_def SL_SUPPLEMENTAL_DATA_STRING_LENGTH_def
        z)
qed


lemma SL_Log_args_below:
  assumes "gSQLiteDatabase s"
    and "case a_message a of None \<Rightarrow> False | Some m \<Rightarrow> strlen m \<noteq> 0"
    and "eSL_LogLevel_Diagnostic \<le> a_level a" and "a_level a \<le> eSL_LogLevel_None"
    and "a_level a < gLogLevel s"
  shows "SL_Log_args N a s = (SL_RESULT_SUCCESS, s)"
  using assms
  by (auto simp: SL_Log_args_def SL_Log_def Let_def SL_RESULT_SUCCESS_def split: option.splits)

text \<open>A call that passes the checks and the gate never leaves the session as it was.\<close>

lemma SL_Log_args_accepted_changes:
  assumes "session_inv N s" and "gSQLiteDatabase s" and "accepted s a"
  shows "snd (SL_Log_args N a s) \<noteq> s"
proof (cases "gLogEntryCount s < N - 1")
  case True
  from SL_Log_args_direct_zeroed [OF assms True]
  have "gLogEntryCount (snd (SL_Log_args N a s)) = gLogEntryCount s + 1" by simp
  then show ?thesis by auto
next
  case False
  have "sqlite (snd (SL_Log_args N a s)) = sqlite (snd (SL_ProcessTransaction s))"
    by (cases "SL_ProcessTransaction s")
      (simp add: SL_Log_args_flush [OF assms(2,3) False] SL_AddLogEntry_def memset_entries_def)
  then have "flushes (snd (SL_Log_args N a s)) = flushes s + 1"
    using SL_ProcessTransaction_flushes [of s] by (simp add: flushes_def)
  then show ?thesis by auto
qed

text \<open>The outcome of a call that is stored, directly or after a flush that goes through.\<close>

lemma SL_Log_args_stored:
  assumes inv: "session_inv N s" and db: "gSQLiteDatabase s" and acc: "accepted s a"
    and ok: "gLogEntryCount s < N - 1 \<or> fst (SL_ProcessTransaction s) = SL_RESULT_SUCCESS"
  shows "fst (SL_Log_args N a s) = SL_RESULT_SUCCESS"
    and "gLogEntryCount (snd (SL_Log_args N a s)) =
           (if gLogEntryCount s < N - 1 then gLogEntryCount s + 1 else 1)"
    and "gLogEntries (snd (SL_Log_args N a s)) ! (gLogEntryCount (snd (SL_Log_args N a s)) - 1) =
           entry_of a"
proof -
  from inv have N: "0 < N" and len: "length (gLogEntries s) = N"
    by (simp_all add: session_inv_def)
  have "fst (SL_Log_args N a s) = SL_RESULT_SUCCESS \<and>
        gLogEntryCount (snd (SL_Log_args N a s)) =
           (if gLogEntryCount s < N - 1 then gLogEntryCount s + 1 else 1) \<and>
        gLogEntries (snd (SL_Log_args N a s)) ! (gLogEntryCount (snd (SL_Log_args N a s)) - 1) =
           entry_of a"
  proof (cases "gLogEntryCount s < N - 1")
    case True
    with len show ?thesis
      by (simp add: SL_Log_args_direct_zeroed [OF inv db acc True])
  next
    case False
    with ok obtain s1 where "SL_ProcessTransaction s = (SL_RESULT_SUCCESS, s1)"
      by (cases "SL_ProcessTransaction s") simp
    from SL_Log_args_flush_OK [OF N db acc False this] False N show ?thesis
      by simp
  qed
  then show "fst (SL_Log_args N a s) = SL_RESULT_SUCCESS"
    and "gLogEntryCount (snd (SL_Log_args N a s)) =
           (if gLogEntryCount s < N - 1 then gLogEntryCount s + 1 else 1)"
    and "gLogEntries (snd (SL_Log_args N a s)) ! (gLogEntryCount (snd (SL_Log_args N a s)) - 1) =
           entry_of a"
    by blast+
qed


lemma demo_call_valid:
  "case a_message (demo_call (c # cs) lvl) of None \<Rightarrow> False | Some m \<Rightarrow> strlen m \<noteq> 0"
  "a_level (demo_call m lvl) = lvl"
  by (simp_all add: demo_call_def strlen_def)



subsection \<open>What a call leaves behind\<close>

text \<open>An accepted call begins no transaction while there is room, and one otherwise.\<close>

lemma SL_Log_args_flushes:
  assumes "session_inv N s" and "gSQLiteDatabase s" and "accepted s a"
  shows "flushes (snd (SL_Log_args N a s)) =
           (if gLogEntryCount s < N - 1 then flushes s else flushes s + 1)"
proof (cases "gLogEntryCount s < N - 1")
  case True
  then show ?thesis
    by (simp add: SL_Log_args_direct_zeroed [OF assms True] flushes_def)
next
  case False
  obtain r1 s1 where pt: "SL_ProcessTransaction s = (r1, s1)"
    by (cases "SL_ProcessTransaction s")
  have "sqlite (snd (SL_Log_args N a s)) = sqlite (snd (SL_ProcessTransaction s))"
    by (simp add: SL_Log_args_flush [OF assms(2,3) False] pt SL_AddLogEntry_def
        memset_entries_def)
  then show ?thesis
    using SL_ProcessTransaction_flushes [of s] False by (simp add: flushes_def)
qed

text \<open>
  An accepted call that finds the buffer full and whose flush fails, at the BEGIN, at a
  row or at the END, returns the code of the flush and leaves buffer and table alone.
\<close>

lemma SL_Log_args_flush_failed:
  assumes "gSQLiteDatabase s" and "accepted s a" and "\<not> gLogEntryCount s < N - 1"
    and "fst (SL_ProcessTransaction s) \<noteq> SL_RESULT_SUCCESS"
  shows "fst (SL_Log_args N a s) = fst (SL_ProcessTransaction s)"
    and "gLogEntryCount (snd (SL_Log_args N a s)) = gLogEntryCount s"
    and "gLogEntries (snd (SL_Log_args N a s)) = gLogEntries s"
    and "table_rows (sqlite (snd (SL_Log_args N a s))) = table_rows (sqlite s)"
proof -
  obtain rc s1 where pt: "SL_ProcessTransaction s = (rc, s1)"
    by (cases "SL_ProcessTransaction s")
  from SL_ProcessTransaction_vars [of s] pt have s1: "s1 = s \<lparr> sqlite := sqlite s1 \<rparr>" by simp
  have c1: "gLogEntryCount s1 = gLogEntryCount s" and e1: "gLogEntries s1 = gLogEntries s"
    by (subst s1, simp)+
  from assms(4) pt have rc: "rc \<noteq> SL_RESULT_SUCCESS" by simp
  then have rc': "rc \<noteq> SQLITE_OK" by (simp add: SL_RESULT_SUCCESS_def SQLITE_OK_def)
  note call = SL_Log_args_flush_fail [OF assms(1,2,3) pt rc]
  show "fst (SL_Log_args N a s) = fst (SL_ProcessTransaction s)" by (simp add: call pt)
  show "gLogEntryCount (snd (SL_Log_args N a s)) = gLogEntryCount s" by (simp add: call c1)
  show "gLogEntries (snd (SL_Log_args N a s)) = gLogEntries s" by (simp add: call e1)
  show "table_rows (sqlite (snd (SL_Log_args N a s))) = table_rows (sqlite s)"
    using SL_ProcessTransaction_fail [OF pt rc'] by (simp add: call)
qed

text \<open>When a call is captured.\<close>

lemma captured_iff:
  assumes inv: "session_inv N s" and db: "gSQLiteDatabase s"
    and msg: "case a_message a of None \<Rightarrow> False | Some m \<Rightarrow> strlen m \<noteq> 0"
    and lo: "eSL_LogLevel_Diagnostic \<le> a_level a" and hi: "a_level a \<le> eSL_LogLevel_None"
  shows "captured N a s \<longleftrightarrow>
           gLogLevel s \<le> a_level a \<and>
           (gLogEntryCount s < N - 1 \<or> fst (SL_ProcessTransaction s) = SL_RESULT_SUCCESS)"
proof
  assume cap: "captured N a s"
  have gate: "gLogLevel s \<le> a_level a"
  proof (rule ccontr)
    assume "\<not> gLogLevel s \<le> a_level a"
    then have "SL_Log_args N a s = (SL_RESULT_SUCCESS, s)"
      by (intro SL_Log_args_below [OF db msg lo hi]) simp
    with cap show False by (simp add: captured_def)
  qed
  then have acc: "accepted s a" using msg lo hi by (simp add: accepted_def)
  have "gLogEntryCount s < N - 1 \<or> fst (SL_ProcessTransaction s) = SL_RESULT_SUCCESS"
  proof (rule ccontr)
    assume "\<not> (gLogEntryCount s < N - 1 \<or> fst (SL_ProcessTransaction s) = SL_RESULT_SUCCESS)"
    then have full: "\<not> gLogEntryCount s < N - 1"
      and bad: "fst (SL_ProcessTransaction s) \<noteq> SL_RESULT_SUCCESS" by simp_all
    from SL_Log_args_flush_failed(1) [OF db acc full bad] bad cap show False
      by (simp add: captured_def Let_def)
  qed
  with gate show "gLogLevel s \<le> a_level a \<and>
      (gLogEntryCount s < N - 1 \<or> fst (SL_ProcessTransaction s) = SL_RESULT_SUCCESS)" ..
next
  assume r: "gLogLevel s \<le> a_level a \<and>
      (gLogEntryCount s < N - 1 \<or> fst (SL_ProcessTransaction s) = SL_RESULT_SUCCESS)"
  then have acc: "accepted s a" using msg lo hi by (simp add: accepted_def)
  from r have ok: "gLogEntryCount s < N - 1 \<or>
      fst (SL_ProcessTransaction s) = SL_RESULT_SUCCESS" ..
  note st = SL_Log_args_stored [OF inv db acc ok]
  note fl = SL_Log_args_flushes [OF inv db acc]
  show "captured N a s"
    unfolding captured_def Let_def using st fl by (cases "gLogEntryCount s < N - 1") simp_all
qed



text \<open>A teardown that reports success has cleared the buffer it flushed.\<close>

lemma SL_Terminate_OK_buffer:
  assumes "gSQLiteDatabase s" and "0 < gLogEntryCount s"
    and "fst (SL_Terminate N s) = SL_RESULT_SUCCESS"
  shows "gLogEntryCount (snd (SL_Terminate N s)) = 0"
    and "gLogEntries (snd (SL_Terminate N s)) = replicate N zero_entry"
proof -
  obtain r1 s1 where pt: "SL_ProcessTransaction s = (r1, s1)"
    by (cases "SL_ProcessTransaction s")
  with assms have r1: "r1 = SL_RESULT_SUCCESS"
    by (auto simp: SL_Terminate_def Let_def split: if_splits)
  from assms(1,2) pt r1 show "gLogEntryCount (snd (SL_Terminate N s)) = 0"
    and "gLogEntries (snd (SL_Terminate N s)) = replicate N zero_entry"
    by (simp_all add: SL_Terminate_def Let_def memset_entries_def)
qed

text \<open>A teardown that reports a failure has left the table as it was.\<close>

lemma SL_Terminate_fail_rows:
  assumes "gSQLiteDatabase s" and "fst (SL_Terminate N s) \<noteq> SL_RESULT_SUCCESS"
  shows "table_rows (sqlite (snd (SL_Terminate N s))) = table_rows (sqlite s)"
proof -
  obtain r1 s1 where pt: "SL_ProcessTransaction s = (r1, s1)"
    by (cases "SL_ProcessTransaction s")
  from assms have pos: "0 < gLogEntryCount s"
    by (auto simp: SL_Terminate_def Let_def split: if_splits)
  with assms pt have r1: "r1 \<noteq> SL_RESULT_SUCCESS"
    by (auto simp: SL_Terminate_def Let_def split: if_splits)
  then have "r1 \<noteq> SQLITE_OK" by (simp add: SL_RESULT_SUCCESS_def SQLITE_OK_def)
  from SL_ProcessTransaction_fail [OF pt this]
  have "table_rows (sqlite s1) = table_rows (sqlite s)" .
  with assms(1) pos pt r1 show ?thesis
    by (simp add: SL_Terminate_def Let_def close_finalize_simps)
qed

subsection \<open>The calls of the example\<close>

lemma demo_call_well_formed:
  "length m < 1024 \<Longrightarrow> NUL \<notin> set m \<Longrightarrow> well_formed (demo_call m lvl)"
  by (simp add: well_formed_def demo_call_def fits_opt_def fits_def NUL_def
      SL_TIMESTAMP_STRING_LENGTH_def SL_MESSAGE_STRING_LENGTH_def
      SL_FILE_NAME_STRING_LENGTH_def SL_FUNCTION_NAME_STRING_LENGTH_def)

lemma demo_calls_well_formed: "\<forall>a\<in>set demo_calls. well_formed a"
  by (simp add: demo_calls_def demo_call_well_formed NUL_def)

lemma call_row_demo_call:
  "call_row (demo_call m lvl) =
     [SqlText ''2022-02-19 10:00:01.000000 UTC'', SqlText m, SqlText (level_string lvl),
      SqlText ''main.c'', SqlText ''main'', SqlInt 42, SqlText [], SqlText []]"
  by (simp add: call_row_def demo_call_def opt_text_def)

lemma level_string_simps:
  "level_string eSL_LogLevel_Info = ''Info''" "level_string eSL_LogLevel_Warning = ''Warning''"
  "level_string eSL_LogLevel_Error = ''Error''"
  by (simp_all add: level_string_def kSL_InfoLevelString_def kSL_WarningLevelString_def
      kSL_ErrorLevelString_def eSL_LogLevel_Diagnostic_def eSL_LogLevel_Detail_def
      eSL_LogLevel_Info_def eSL_LogLevel_Warning_def eSL_LogLevel_Error_def)

lemma full_session_healthy: "healthy 3 full_session"
  unfolding full_session_def
  using healthy_run_ops [OF demo_session_healthy, of "take 2 demo_calls"] demo_calls_accepted
  by (simp add: demo_calls_def)

text \<open>
  The batch commit of the two entries on the store that fails the step of the second
  row: the BEGIN and the first row go through, the second row returns 13.
\<close>

lemma full_session_step_fails:
  obtains db1 db2 where
    "sqlite3_exec_begin (sqlite (with_faults step_fails full_session)) = (SQLITE_OK, db1)"
    and "insert_rows (gInsertStatement (with_faults step_fails full_session))
           (take (gLogEntryCount (with_faults step_fails full_session))
              (gLogEntries (with_faults step_fails full_session))) db1 = (13, db2)"
proof -
  let ?s = "with_faults step_fails full_session"
  have "faults (sqlite ?s) = 0 # 0 # 0 # 0 # 0 # 0 # 0 # 0 # 0 # 0 # 0 #
                              [0, 0, 0, 0, 0, 0, 0, 0, 13]"
    and "\<not> txn_open (sqlite ?s)"
    by (simp_all add: with_faults_def step_fails_def full_session_vars)
  then obtain db1 where b: "sqlite3_exec_begin (sqlite ?s) = (SQLITE_OK, db1)"
    and f1: "faults db1 = 0 # 0 # 0 # 0 # 0 # 0 # 0 # 0 # 0 # 0 # [0, 0, 0, 0, 0, 0, 0, 0, 13]"
    by (rule scripted_begin)
  let ?e1 = "entry_of (demo_calls ! 0)" and ?e2 = "entry_of (demo_calls ! 1)"
  from f1 obtain db1' where r1: "insert_row True ?e1 db1 = (SQLITE_OK, db1')"
    and f1': "faults db1' = 0 # 0 # 0 # 0 # 0 # 0 # 0 # 0 # 13 # []"
    by (rule scripted_insert_row [where e = ?e1]) simp
  have r2: "fst (insert_row True ?e2 db1') = 13"
    by (rule scripted_insert_row_step_fails [OF f1']) (simp_all add: SQLITE_OK_def SQLITE_DONE_def)
  obtain db2 where r2': "insert_row True ?e2 db1' = (13, db2)"
    using r2 by (cases "insert_row True ?e2 db1'") simp
  have "insert_rows (gInsertStatement ?s) (take (gLogEntryCount ?s) (gLogEntries ?s)) db1 =
        (13, db2)"
    by (simp add: with_faults_def full_session_vars demo_calls_def r1 [unfolded demo_calls_def, simplified]
         r2' [unfolded demo_calls_def, simplified] SQLITE_OK_def)
  with b show ?thesis by (rule that)
qed

lemma full_session_flush_fails:
  "fst (SL_ProcessTransaction (with_faults step_fails full_session)) = 13"
proof -
  obtain db1 db2 where
    "sqlite3_exec_begin (sqlite (with_faults step_fails full_session)) = (SQLITE_OK, db1)"
    and "insert_rows (gInsertStatement (with_faults step_fails full_session))
           (take (gLogEntryCount (with_faults step_fails full_session))
              (gLogEntries (with_faults step_fails full_session))) db1 = (13, db2)"
    by (rule full_session_step_fails)
  then show ?thesis by (simp add: SL_ProcessTransaction_def SQLITE_OK_def)
qed

text \<open>The session that is started after the failed teardown.\<close>

lemma restarted_vars:
  "fst restarted = SL_RESULT_SUCCESS" "healthy 3 (snd restarted)"
  "gLogEntryCount (snd restarted) = 1" "gLogLevel (snd restarted) = eSL_LogLevel_Info"
  "gLogEntries (snd restarted) = replicate 3 zero_entry"
  "table_rows (sqlite (snd restarted)) = []"
proof -
  let ?s1 = "snd (SL_Log_args 3 (demo_calls ! 0) demo_session)"
  have acc: "accepted demo_session (demo_calls ! 0)"
    using demo_calls_accepted by (simp add: demo_calls_def)
  have room: "gLogEntryCount demo_session < 3 - 1" by (simp add: demo_session_vars)
  note direct = SL_Log_args_direct_zeroed [OF demo_session_inv acc room]
  have c1: "gLogEntryCount ?s1 = 1" and l1: "gLogLevel ?s1 = eSL_LogLevel_Info"
    and t1: "table_rows (sqlite ?s1) = []"
    by (simp_all add: direct demo_session_vars)
  from healthy_SL_Log_args(1) [OF demo_session_healthy, of "demo_calls ! 0"]
  have db1: "gSQLiteDatabase ?s1" by (simp add: healthy_def)
  have db1': "gSQLiteDatabase (with_faults [5] ?s1)" using db1 by (simp add: with_faults_def)
  have t: "fst failed_teardown = 5" "gLogEntryCount (snd failed_teardown) = 1"
    "\<not> gSQLiteDatabase (snd failed_teardown)" "faults (sqlite (snd failed_teardown)) = []"
    "gLogLevel (snd failed_teardown) = eSL_LogLevel_Info"
    unfolding failed_teardown_def
    using SL_Terminate_begin_fails [of "with_faults [5] ?s1" 5 "[]" 3] c1 db1 l1
    by (simp_all add: with_faults_def SQLITE_OK_def)
  have "table_rows (sqlite (snd failed_teardown)) = table_rows (sqlite (with_faults [5] ?s1))"
    unfolding failed_teardown_def
    using t(1) by (intro SL_Terminate_fail_rows [OF db1'])
      (simp add: failed_teardown_def SL_RESULT_SUCCESS_def)
  then have tt: "table_rows (sqlite (snd failed_teardown)) = []"
    using t1 by (simp add: with_faults_def)
  have p: "strlen ''log.sqlite3'' \<noteq> 0" by (simp add: strlen_def)
  note ini = SL_Initialize_OK [OF p t(3,4), of 3 "''2022-02-19 11:00:00.000000 UTC''"]
  from ini(1) show "fst restarted = SL_RESULT_SUCCESS" by (simp add: restarted_def)
  from SL_Initialize_healthy [OF _ p t(3,4), of 3 "''2022-02-19 11:00:00.000000 UTC''"] t(2)
  show "healthy 3 (snd restarted)" by (simp add: restarted_def)
  show "gLogEntryCount (snd restarted) = 1"
    by (simp add: restarted_def SL_Initialize_gLogEntryCount t(2))
  show "gLogLevel (snd restarted) = eSL_LogLevel_Info"
    by (simp add: restarted_def SL_Initialize_gLogLevel t(5))
  from ini(2) show "gLogEntries (snd restarted) = replicate 3 zero_entry"
    by (simp add: restarted_def)
  show "table_rows (sqlite (snd restarted)) = []"
    by (simp add: restarted_def SL_Initialize_table_rows tt)
qed

subsection \<open>Texts that do not fit their fields\<close>

text \<open>A member without a terminator is read together with what follows it.\<close>

lemma read_on_unterminated:
  assumes "NUL \<notin> set cs" and "read_on rest = SqlText ds"
  shows "read_on (cs # rest) = SqlText (cs @ ds)"
proof -
  from assms(2) have nul: "NUL \<in> set (concat rest)"
    and ds: "takeWhile (\<lambda>c. c \<noteq> NUL) (concat rest) = ds"
    by (simp_all add: read_on_def Let_def split: if_splits)
  from assms(1) have "takeWhile (\<lambda>c. c \<noteq> NUL) (cs @ concat rest) =
      cs @ takeWhile (\<lambda>c. c \<noteq> NUL) (concat rest)"
    by (intro takeWhile_append2) auto
  with nul ds show ?thesis by (simp add: read_on_def)
qed

text \<open>
  The message of 1025 characters fills its field, and the message column is read on
  into the level field: it holds 1024 characters of the message followed by the label
  of the level.
\<close>

lemma long_call_message_text:
  "message_text (entry_of long_call) = SqlText (replicate 1024 (CHR ''x'') @ ''Info'')"
proof -
  have now: "fits SL_TIMESTAMP_STRING_LENGTH (a_now long_call)"
    by (simp add: long_call_def demo_call_def fits_def SL_TIMESTAMP_STRING_LENGTH_def NUL_def)
  have "message (entry_of long_call) =
      strncpy (replicate SL_MESSAGE_STRING_LENGTH NUL)
        (case a_message long_call of None \<Rightarrow> [] | Some m \<Rightarrow> m)
        (copy_count (case a_message long_call of None \<Rightarrow> [] | Some m \<Rightarrow> m)
           SL_MESSAGE_STRING_LENGTH)"
    by (simp add: entry_of_def fill_entry_def zero_entry_def timestamp_fits(2) [OF now] over_Nil)
  then have "message (entry_of long_call) = take 1024 (replicate 1025 (CHR ''x''))"
    using strncpy_overlong [of 1024 "replicate 1025 (CHR ''x'')" "replicate 1024 NUL"]
    by (simp add: long_call_def demo_call_def SL_MESSAGE_STRING_LENGTH_def)
  then have m: "message (entry_of long_call) = replicate 1024 (CHR ''x'')" by simp
  have "read_on [level (entry_of long_call), fileName (entry_of long_call),
      functionName (entry_of long_call)] = SqlText ''Info''"
    using level_text_entry_of [of long_call]
    by (simp add: level_text_def long_call_def demo_call_def level_string_simps)
  then have "read_on [replicate 1024 (CHR ''x''), level (entry_of long_call),
      fileName (entry_of long_call), functionName (entry_of long_call)] =
      SqlText (replicate 1024 (CHR ''x'') @ ''Info'')"
    by (intro read_on_unterminated) (simp_all add: NUL_def)
  then show ?thesis by (simp add: message_text_def m)
qed

text \<open>
  A time text of 32 characters fills \<open>timestamp\<close>; its terminator lands in the first
  byte of \<open>message\<close>, where the message is copied over it. The time column is read
  on into the message.
\<close>

lemma zone_call_timestamp_text:
  "timestamp (entry_of zone_call) = ''2022-02-19 10:00:01.000000 +0530''"
  "timestamp_text (entry_of zone_call) = SqlText ''2022-02-19 10:00:01.000000 +0530one''"
proof -
  show ts: "timestamp (entry_of zone_call) = ''2022-02-19 10:00:01.000000 +0530''"
    by (simp add: entry_of_def fill_entry_def zero_entry_def zone_call_def demo_call_def
        SL_GetTimestamp_def clock_text_def over_def SL_TIMESTAMP_STRING_LENGTH_def)
  have "past (SL_GetTimestamp (a_now zone_call)) (replicate SL_TIMESTAMP_STRING_LENGTH NUL) =
      [NUL]"
    by (simp add: zone_call_def demo_call_def SL_GetTimestamp_def clock_text_def past_def
        SL_TIMESTAMP_STRING_LENGTH_def)
  then have "message (entry_of zone_call) =
      strncpy (over [NUL] (replicate SL_MESSAGE_STRING_LENGTH NUL)) ''one''
        (copy_count ''one'' SL_MESSAGE_STRING_LENGTH)"
    by (simp add: entry_of_def fill_entry_def zero_entry_def)
      (simp add: zone_call_def demo_call_def)
  also have "\<dots> = ''one'' @ replicate 1021 NUL"
    by (simp add: strncpy_def copy_count_def strlen_def over_def SL_MESSAGE_STRING_LENGTH_def)
  finally have m: "message (entry_of zone_call) = ''one'' @ replicate 1021 NUL" .
  have "read_on [''one'' @ replicate 1021 NUL, level (entry_of zone_call),
      fileName (entry_of zone_call), functionName (entry_of zone_call)] = SqlText ''one''"
    by (intro read_on_terminated) (simp_all add: NUL_def)
  then have "read_on [''2022-02-19 10:00:01.000000 +0530'', ''one'' @ replicate 1021 NUL,
      level (entry_of zone_call), fileName (entry_of zone_call),
      functionName (entry_of zone_call)] =
      SqlText (''2022-02-19 10:00:01.000000 +0530'' @ ''one'')"
    by (intro read_on_unterminated) (simp_all add: NUL_def)
  then show "timestamp_text (entry_of zone_call) =
      SqlText ''2022-02-19 10:00:01.000000 +0530one''"
    by (simp add: timestamp_text_def ts m)
qed

section \<open>The claims\<close>

text \<open>
  C1. When the batch commit of a full buffer gets through BEGIN and then fails at a row
  (at a bind, at the step or at the reset of the statement), \<open>SL_Log\<close> returns the
  code of the store, which is not \<open>SL_RESULT_SUCCESS\<close>; the entry count and the
  entries are what they were, so the new entry is not appended; the transaction is rolled
  back as the last call on the store, and the table holds the rows it held before, with
  no row of the batch left in the store.
\<close>

theorem flush_row_failure_keeps_buffer:
  assumes "gSQLiteDatabase s" and "accepted s a" and "\<not> gLogEntryCount s < N - 1"
    and "sqlite3_exec_begin (sqlite s) = (SQLITE_OK, db1)"
    and "insert_rows (gInsertStatement s) (take (gLogEntryCount s) (gLogEntries s)) db1 = (rc, db2)"
    and "rc \<noteq> SQLITE_OK"
  shows "fst (SL_Log_args N a s) = rc \<and> rc \<noteq> SL_RESULT_SUCCESS \<and>
         gLogEntryCount (snd (SL_Log_args N a s)) = gLogEntryCount s \<and>
         gLogEntries (snd (SL_Log_args N a s)) = gLogEntries s \<and>
         table_rows (sqlite (snd (SL_Log_args N a s))) = table_rows (sqlite s) \<and>
         txn_rows (sqlite (snd (SL_Log_args N a s))) = [] \<and>
         \<not> txn_open (sqlite (snd (SL_Log_args N a s))) \<and>
         last (trace (sqlite (snd (SL_Log_args N a s)))) = ExecRollback"
proof -
  from assms(4,5,6) have pt: "SL_ProcessTransaction s =
      (rc, s \<lparr> sqlite := sqlite3_exec_rollback db2 \<rparr>)"
    by (simp add: SL_ProcessTransaction_def)
  from assms(6) have rc: "rc \<noteq> SL_RESULT_SUCCESS"
    by (simp add: SL_RESULT_SUCCESS_def SQLITE_OK_def)
  note call = SL_Log_args_flush_fail [OF assms(1,2,3) pt rc]
  note bo = exec_begin_OK [OF assms(4)]
  from in_txn_insert_rows [OF in_txn_refl [OF bo(1)], of "gInsertStatement s"
      "take (gLogEntryCount s) (gLogEntries s)"] assms(5)
  have "table_rows db2 = table_rows db1" by (simp add: in_txn_def)
  with bo(3) rc show ?thesis
    by (simp add: call exec_rollback_simps)
qed

text \<open>
  C1, on the example: two entries wait in three slots; the store lets the BEGIN and the
  whole first row through and fails the step of the second row with code 13. The third
  call returns 13, the two entries stay, and the table stays empty.
\<close>

theorem flush_row_failure_keeps_buffer_witness:
  "fst (SL_Log_args 3 (demo_calls ! 2) (with_faults step_fails full_session)) = 13 \<and>
   gLogEntryCount (snd (SL_Log_args 3 (demo_calls ! 2) (with_faults step_fails full_session))) = 2 \<and>
   gLogEntries (snd (SL_Log_args 3 (demo_calls ! 2) (with_faults step_fails full_session))) =
     map entry_of (take 2 demo_calls) @ [zero_entry] \<and>
   table_rows (sqlite (snd (SL_Log_args 3 (demo_calls ! 2)
     (with_faults step_fails full_session)))) = [] \<and>
   txn_rows (sqlite (snd (SL_Log_args 3 (demo_calls ! 2)
     (with_faults step_fails full_session)))) = []"
proof -
  let ?s = "with_faults step_fails full_session"
  let ?a = "demo_calls ! 2"
  have db: "gSQLiteDatabase ?s" by (simp add: with_faults_def full_session_vars)
  have acc: "accepted ?s ?a"
    using demo_calls_accepted
    by (simp add: accepted_def with_faults_def full_session_vars demo_session_vars demo_calls_def)
  have full: "\<not> gLogEntryCount ?s < 3 - 1" by (simp add: with_faults_def full_session_vars)
  obtain db1 db2 where b: "sqlite3_exec_begin (sqlite ?s) = (SQLITE_OK, db1)"
    and rows: "insert_rows (gInsertStatement ?s) (take (gLogEntryCount ?s) (gLogEntries ?s)) db1 =
        (13, db2)"
    by (rule full_session_step_fails)
  have "(13::int) \<noteq> SQLITE_OK" by (simp add: SQLITE_OK_def)
  from flush_row_failure_keeps_buffer [OF db acc full b rows this]
  show ?thesis
    by (simp add: with_faults_def full_session_vars)
qed

text \<open>
  C2, at the session that is started after a failed teardown flush. The start-up
  succeeds and zeroes the three slots but keeps the count of 1 (see C8). The first
  accepted call of the session is stored directly, in slot 1, and raises the count to 2.
  The second accepted call, the last of the \<open>N - 1 = 2\<close> calls that are to be stored
  without a flush, finds the count at \<open>N - 1\<close> and begins a transaction; the flush
  commits the zeroed slot 0 as a row of empty texts, followed by the row of the first
  call, and leaves the second call alone in the buffer.
\<close>

theorem restart_flushes_before_capacity:
  "fst restarted = SL_RESULT_SUCCESS \<and> gSQLiteDatabase (snd restarted) \<and>
   table_rows (sqlite (snd restarted)) = [] \<and>
   accepted (snd restarted) (demo_calls ! 1) \<and>
   fst restarted_first = SL_RESULT_SUCCESS \<and>
   flushes (snd restarted_first) = flushes (snd restarted) \<and>
   gLogEntryCount (snd restarted_first) = 2 \<and>
   accepted (snd restarted_first) (demo_calls ! 2) \<and>
   fst restarted_second = SL_RESULT_SUCCESS \<and>
   flushes (snd restarted_second) = flushes (snd restarted) + 1 \<and>
   table_rows (sqlite (snd restarted_second)) =
     [[SqlText [], SqlText [], SqlText [], SqlText [], SqlText [], SqlInt 0, SqlText [],
       SqlText []],
      [SqlText ''2022-02-19 10:00:01.000000 UTC'', SqlText ''two'', SqlText ''Warning'',
       SqlText ''main.c'', SqlText ''main'', SqlInt 42, SqlText [], SqlText []]] \<and>
   gLogEntryCount (snd restarted_second) = 1"
proof -
  let ?s0 = "snd restarted"
  note v = restarted_vars
  from v(2) have inv0: "session_inv 3 ?s0" and db0: "gSQLiteDatabase ?s0"
    by (simp_all add: healthy_def)
  have lv: "gLogLevel ?s0 = gLogLevel demo_session" by (simp add: v(4) demo_session_vars)
  have acc1: "accepted ?s0 (demo_calls ! 1)"
    using demo_calls_accepted by (simp add: accepted_cong [OF lv] demo_calls_def)
  have room: "gLogEntryCount ?s0 < 3 - 1" by (simp add: v(3))
  have first: "restarted_first =
      (SL_RESULT_SUCCESS,
       ?s0 \<lparr> gLogEntries := (replicate 3 zero_entry) [1 := entry_of (demo_calls ! 1)],
             gLogEntryCount := 2 \<rparr>)"
    unfolding restarted_first_def
    using SL_Log_args_direct_zeroed [OF inv0 db0 acc1 room] by (simp add: v(3,5))
  let ?s1 = "snd restarted_first"
  have h1: "healthy 3 ?s1"
    unfolding restarted_first_def by (rule healthy_SL_Log_args(1) [OF v(2)])
  then have inv1: "session_inv 3 ?s1" and db1: "gSQLiteDatabase ?s1"
    and st1: "gInsertStatement ?s1" and f1: "faults (sqlite ?s1) = []"
    and o1: "\<not> txn_open (sqlite ?s1)"
    by (simp_all add: healthy_def)
  have fl1: "flushes ?s1 = flushes ?s0" by (simp add: first flushes_def)
  have lv1: "gLogLevel ?s1 = gLogLevel demo_session" by (simp add: first lv)
  have acc2: "accepted ?s1 (demo_calls ! 2)"
    using demo_calls_accepted by (simp add: accepted_cong [OF lv1] demo_calls_def)
  have c1: "gLogEntryCount ?s1 = 2" by (simp add: first)
  then have full: "\<not> gLogEntryCount ?s1 < 3 - 1" by simp
  from SL_ProcessTransaction_healthy(1) [OF st1 f1 o1]
  obtain s2 where pt: "SL_ProcessTransaction ?s1 = (SQLITE_OK, s2)"
    by (cases "SL_ProcessTransaction ?s1") simp
  then have pt': "SL_ProcessTransaction ?s1 = (SL_RESULT_SUCCESS, s2)"
    by (simp add: SL_RESULT_SUCCESS_def SQLITE_OK_def)
  have second: "restarted_second =
      (SL_RESULT_SUCCESS,
       s2 \<lparr> gLogEntryCount := 1,
            gLogEntries := (replicate 3 zero_entry) [0 := entry_of (demo_calls ! 2)] \<rparr>)"
    unfolding restarted_second_def by (rule SL_Log_args_flush_OK [OF _ db1 acc2 full pt']) simp
  have fl2: "flushes (snd restarted_second) = flushes ?s0 + 1"
    unfolding restarted_second_def
    using SL_Log_args_flushes [OF inv1 db1 acc2] full fl1 by simp
  have wf: "well_formed (demo_calls ! 1)"
    using demo_calls_well_formed by (simp add: demo_calls_def)
  have row1: "row_of (entry_of (demo_calls ! 1)) =
      [SqlText ''2022-02-19 10:00:01.000000 UTC'', SqlText ''two'', SqlText ''Warning'',
       SqlText ''main.c'', SqlText ''main'', SqlInt 42, SqlText [], SqlText []]"
    unfolding row_of_fitting [OF wf]
    by (simp add: demo_calls_def call_row_demo_call level_string_simps)
  have "buffered_rows ?s1 = [row_of zero_entry, row_of (entry_of (demo_calls ! 1))]"
    by (simp add: first buffered_rows_def numeral_2_eq_2 numeral_3_eq_3)
  moreover have "table_rows (sqlite ?s1) = []" by (simp add: first v(6))
  ultimately have tab: "table_rows (sqlite s2) =
      [row_of zero_entry, row_of (entry_of (demo_calls ! 1))]"
    using SL_ProcessTransaction_OK(1) [OF pt] by simp
  show ?thesis
    using v(1) db0 v(6) acc1 acc2 fl1 fl2 c1 row1
    by (simp add: first second tab row_of_zero_entry)
qed




text \<open>
  C4 does not hold. In the example session two entries wait in three slots and the
  threshold is Info; the store fails the step of the second row of the flush with code
  13. The call with level Error, which is above the threshold, returns 13 and is not
  captured: the buffer holds the same two entries as before and the table is empty.
\<close>

theorem admitted_entry_not_captured_counterexample:
  "gSQLiteDatabase (with_faults step_fails full_session) \<and>
   gLogLevel (with_faults step_fails full_session) = eSL_LogLevel_Info \<and>
   a_level (demo_calls ! 2) = eSL_LogLevel_Error \<and>
   a_message (demo_calls ! 2) = Some ''three'' \<and>
   gLogLevel (with_faults step_fails full_session) \<le> a_level (demo_calls ! 2) \<and>
   fst (SL_Log_args 3 (demo_calls ! 2) (with_faults step_fails full_session)) = 13 \<and>
   gLogEntryCount (with_faults step_fails full_session) = 2 \<and>
   gLogEntryCount (snd (SL_Log_args 3 (demo_calls ! 2) (with_faults step_fails full_session))) = 2 \<and>
   gLogEntries (snd (SL_Log_args 3 (demo_calls ! 2) (with_faults step_fails full_session))) =
     gLogEntries (with_faults step_fails full_session) \<and>
   table_rows (sqlite (snd (SL_Log_args 3 (demo_calls ! 2)
     (with_faults step_fails full_session)))) = [] \<and>
   \<not> captured 3 (demo_calls ! 2) (with_faults step_fails full_session)"
proof -
  let ?s = "with_faults step_fails full_session"
  let ?a = "demo_calls ! 2"
  have db: "gSQLiteDatabase ?s" and c: "gLogEntryCount ?s = 2"
    and thr: "gLogLevel ?s = eSL_LogLevel_Info" and tab: "table_rows (sqlite ?s) = []"
    by (simp_all add: with_faults_def full_session_vars)
  have a: "a_level ?a = eSL_LogLevel_Error" "a_message ?a = Some ''three''"
    by (simp_all add: demo_calls_def demo_call_def)
  have gate: "gLogLevel ?s \<le> a_level ?a"
    by (simp add: thr a eSL_LogLevel_Info_def eSL_LogLevel_Error_def)
  have acc: "accepted ?s ?a"
    using gate by (simp add: accepted_def a strlen_def eSL_LogLevel_Diagnostic_def
        eSL_LogLevel_Error_def eSL_LogLevel_None_def)
  have full: "\<not> gLogEntryCount ?s < 3 - 1" by (simp add: c)
  have bad: "fst (SL_ProcessTransaction ?s) \<noteq> SL_RESULT_SUCCESS"
    by (simp add: full_session_flush_fails SL_RESULT_SUCCESS_def)
  note failed = SL_Log_args_flush_failed [OF db acc full bad]
  have rc: "fst (SL_Log_args 3 ?a ?s) = 13"
    by (simp add: failed(1) full_session_flush_fails)
  then have "\<not> captured 3 ?a ?s"
    by (simp add: captured_def Let_def SL_RESULT_SUCCESS_def)
  with db thr a gate rc c failed(2,3,4) tab show ?thesis by simp
qed

text \<open>
  C4, amended. For an initialised session, a non-empty message and a level from
  Diagnostic to None, the entry is captured, that is, the call returns success and
  leaves its entry as the newest one of the buffer, exactly when the level is at or above
  the threshold and either fewer than \<open>N - 1\<close> entries wait or the flush of the
  waiting entries succeeds. \<open>SL_Log\<close> returns success and leaves the whole session
  untouched, buffer and store, exactly when the level is below the threshold. When the
  level is at or above the threshold and the flush fails, the call returns the code of
  the flush and leaves the buffer and the table as they were. The entry of a call holds
  the message of the call, cut at the length of the field, the label of its level and
  its line number; the row of a call whose texts fit their fields holds the arguments of
  the call.
\<close>

theorem level_gate:
  assumes "session_inv N s" and "gSQLiteDatabase s"
    and "a_message a = Some m" and "strlen m \<noteq> 0"
    and "eSL_LogLevel_Diagnostic \<le> a_level a" and "a_level a \<le> eSL_LogLevel_None"
  shows "(captured N a s \<longleftrightarrow>
            gLogLevel s \<le> a_level a \<and>
            (gLogEntryCount s < N - 1 \<or>
             fst (SL_ProcessTransaction s) = SL_RESULT_SUCCESS)) \<and>
         (SL_Log_args N a s = (SL_RESULT_SUCCESS, s) \<longleftrightarrow> a_level a < gLogLevel s) \<and>
         (gLogLevel s \<le> a_level a \<and> \<not> gLogEntryCount s < N - 1 \<and>
          fst (SL_ProcessTransaction s) \<noteq> SL_RESULT_SUCCESS \<longrightarrow>
            fst (SL_Log_args N a s) = fst (SL_ProcessTransaction s) \<and>
            gLogEntryCount (snd (SL_Log_args N a s)) = gLogEntryCount s \<and>
            gLogEntries (snd (SL_Log_args N a s)) = gLogEntries s \<and>
            table_rows (sqlite (snd (SL_Log_args N a s))) = table_rows (sqlite s)) \<and>
         take (strlen m) (message (entry_of a)) = take SL_MESSAGE_STRING_LENGTH m \<and>
         level_text (entry_of a) = SqlText (level_string (a_level a)) \<and>
         lineNumber (entry_of a) = a_lineNumber a \<and>
         (well_formed a \<longrightarrow> row_of (entry_of a) = call_row a)"
proof -
  have msg: "case a_message a of None \<Rightarrow> False | Some m \<Rightarrow> strlen m \<noteq> 0"
    using assms(3,4) by simp
  have acc: "accepted s a" if "gLogLevel s \<le> a_level a"
    using that msg assms(5,6) by (simp add: accepted_def)
  note cap = captured_iff [OF assms(1,2) msg assms(5,6)]
  have noop: "SL_Log_args N a s = (SL_RESULT_SUCCESS, s) \<longleftrightarrow> a_level a < gLogLevel s"
  proof
    assume eq: "SL_Log_args N a s = (SL_RESULT_SUCCESS, s)"
    show "a_level a < gLogLevel s"
    proof (rule ccontr)
      assume "\<not> a_level a < gLogLevel s"
      then have "accepted s a" by (intro acc) simp
      from SL_Log_args_accepted_changes [OF assms(1,2) this] eq show False by simp
    qed
  next
    assume "a_level a < gLogLevel s"
    then show "SL_Log_args N a s = (SL_RESULT_SUCCESS, s)"
      by (rule SL_Log_args_below [OF assms(2) msg assms(5,6)])
  qed
  have failed: "fst (SL_Log_args N a s) = fst (SL_ProcessTransaction s) \<and>
      gLogEntryCount (snd (SL_Log_args N a s)) = gLogEntryCount s \<and>
      gLogEntries (snd (SL_Log_args N a s)) = gLogEntries s \<and>
      table_rows (sqlite (snd (SL_Log_args N a s))) = table_rows (sqlite s)"
    if "gLogLevel s \<le> a_level a \<and> \<not> gLogEntryCount s < N - 1 \<and>
        fst (SL_ProcessTransaction s) \<noteq> SL_RESULT_SUCCESS"
  proof -
    from that have g: "gLogLevel s \<le> a_level a" and full: "\<not> gLogEntryCount s < N - 1"
      and bad: "fst (SL_ProcessTransaction s) \<noteq> SL_RESULT_SUCCESS" by simp_all
    from SL_Log_args_flush_failed [OF assms(2) acc [OF g] full bad] show ?thesis by simp
  qed
  have cut: "take (strlen m) (message (entry_of a)) = take SL_MESSAGE_STRING_LENGTH m"
    by (rule message_of_entry [OF assms(3)])
  have lvl: "level_text (entry_of a) = SqlText (level_string (a_level a))"
    by (rule level_text_entry_of)
  have ln: "lineNumber (entry_of a) = a_lineNumber a"
    by (simp add: entry_of_def fill_entry_def)
  have row: "well_formed a \<longrightarrow> row_of (entry_of a) = call_row a"
    by (simp add: row_of_fitting)
  from cap noop failed cut lvl ln row show ?thesis by blast
qed

text \<open>
  C4, amended, on the example, whose threshold is Info: a Detail call is dropped with
  success and is not captured; an Info call is captured, and its row holds its
  arguments; the Error call whose flush fails at a row returns the code 13 of the store.
\<close>

theorem level_gate_witness:
  "SL_Log_args 3 (demo_call ''dropped'' eSL_LogLevel_Detail) demo_session =
     (SL_RESULT_SUCCESS, demo_session) \<and>
   \<not> captured 3 (demo_call ''dropped'' eSL_LogLevel_Detail) demo_session \<and>
   captured 3 (demo_call ''kept'' eSL_LogLevel_Info) demo_session \<and>
   row_of (entry_of (demo_call ''kept'' eSL_LogLevel_Info)) =
     [SqlText ''2022-02-19 10:00:01.000000 UTC'', SqlText ''kept'', SqlText ''Info'',
      SqlText ''main.c'', SqlText ''main'', SqlInt 42, SqlText [], SqlText []] \<and>
   fst (SL_Log_args 3 (demo_calls ! 2) (with_faults step_fails full_session)) = 13"
proof -
  let ?d = "demo_call ''dropped'' eSL_LogLevel_Detail"
  let ?k = "demo_call ''kept'' eSL_LogLevel_Info"
  let ?e = "demo_calls ! 2"
  let ?s = "with_faults step_fails full_session"
  have m: "a_message ?d = Some ''dropped''" "a_message ?k = Some ''kept''"
    "a_message ?e = Some ''three''"
    and n: "strlen ''dropped'' \<noteq> 0" "strlen ''kept'' \<noteq> 0" "strlen ''three'' \<noteq> 0"
    by (simp_all add: demo_call_def demo_calls_def strlen_def)
  have l: "a_level ?d = eSL_LogLevel_Detail" "a_level ?k = eSL_LogLevel_Info"
    "a_level ?e = eSL_LogLevel_Error"
    by (simp_all add: demo_call_def demo_calls_def)
  have lo: "eSL_LogLevel_Diagnostic \<le> a_level ?d" "eSL_LogLevel_Diagnostic \<le> a_level ?k"
    "eSL_LogLevel_Diagnostic \<le> a_level ?e"
    and hi: "a_level ?d \<le> eSL_LogLevel_None" "a_level ?k \<le> eSL_LogLevel_None"
    "a_level ?e \<le> eSL_LogLevel_None"
    unfolding l
    by (simp_all add: eSL_LogLevel_Diagnostic_def eSL_LogLevel_Detail_def
        eSL_LogLevel_Info_def eSL_LogLevel_Error_def eSL_LogLevel_None_def)
  have inv: "session_inv 3 ?s" and db: "gSQLiteDatabase ?s"
    and c: "gLogEntryCount ?s = 2" and thr: "gLogLevel ?s = eSL_LogLevel_Info"
    using full_session_healthy
    by (simp_all add: healthy_def session_inv_def with_faults_def full_session_vars)
  have wf: "well_formed ?k" by (simp add: demo_call_well_formed NUL_def)
  have row: "call_row ?k =
      [SqlText ''2022-02-19 10:00:01.000000 UTC'', SqlText ''kept'', SqlText ''Info'',
       SqlText ''main.c'', SqlText ''main'', SqlInt 42, SqlText [], SqlText []]"
    by (simp add: call_row_demo_call level_string_simps)
  have bad: "fst (SL_ProcessTransaction ?s) = 13" by (rule full_session_flush_fails)
  note d = level_gate [OF demo_session_inv m(1) n(1) lo(1) hi(1)]
  note k = level_gate [OF demo_session_inv m(2) n(2) lo(2) hi(2)]
  note e = level_gate [OF inv db m(3) n(3) lo(3) hi(3)]
  have "SL_Log_args 3 ?d demo_session = (SL_RESULT_SUCCESS, demo_session)"
    and "\<not> captured 3 ?d demo_session"
    using d [unfolded l]
    by (simp_all add: demo_session_vars eSL_LogLevel_Detail_def eSL_LogLevel_Info_def)
  moreover have "captured 3 ?k demo_session"
    using k [unfolded l] by (simp add: demo_session_vars)
  moreover have "row_of (entry_of ?k) = call_row ?k" using k wf by blast
  moreover have "fst (SL_Log_args 3 ?e ?s) = 13"
    using e [unfolded l] bad
    by (simp add: c thr SL_RESULT_SUCCESS_def eSL_LogLevel_Info_def eSL_LogLevel_Error_def)
  ultimately show ?thesis by (simp add: row)
qed

text \<open>
  C5, at a message of 1025 characters in the example session. The call succeeds, and the
  message field of the slot holds the first 1024 characters of the input, which fill the
  field to its bound \<open>SL_MESSAGE_STRING_LENGTH\<close>: nothing is written past the field,
  but the field holds no terminator, where 1023 characters and a terminator were due.
\<close>

theorem overlong_message_unterminated:
  "fst (SL_Log_args 3 long_call demo_session) = SL_RESULT_SUCCESS \<and>
   message (gLogEntries (snd (SL_Log_args 3 long_call demo_session)) ! 0) =
     replicate 1024 (CHR ''x'') \<and>
   length (message (gLogEntries (snd (SL_Log_args 3 long_call demo_session)) ! 0)) =
     SL_MESSAGE_STRING_LENGTH \<and>
   \<not> terminated (message (gLogEntries (snd (SL_Log_args 3 long_call demo_session)) ! 0))"
proof -
  have acc: "accepted demo_session long_call"
    by (simp add: accepted_def long_call_def demo_call_def strlen_def demo_session_vars
        eSL_LogLevel_Diagnostic_def eSL_LogLevel_Info_def eSL_LogLevel_None_def)
  from demo_session_inv(1) have len: "length (gLogEntries demo_session) = 3"
    by (simp add: session_inv_def)
  have r: "SL_Log_args 3 long_call demo_session =
      (SL_RESULT_SUCCESS,
       demo_session \<lparr> gLogEntries := (gLogEntries demo_session) [0 := entry_of long_call],
                      gLogEntryCount := 1 \<rparr>)"
    using SL_Log_args_direct_zeroed [OF demo_session_inv acc] by (simp add: demo_session_vars)
  have now: "fits SL_TIMESTAMP_STRING_LENGTH (a_now long_call)"
    by (simp add: long_call_def demo_call_def fits_def SL_TIMESTAMP_STRING_LENGTH_def NUL_def)
  have "message (entry_of long_call) =
      strncpy (replicate SL_MESSAGE_STRING_LENGTH NUL)
        (case a_message long_call of None \<Rightarrow> [] | Some m \<Rightarrow> m)
        (copy_count (case a_message long_call of None \<Rightarrow> [] | Some m \<Rightarrow> m)
           SL_MESSAGE_STRING_LENGTH)"
    by (simp add: entry_of_def fill_entry_def zero_entry_def timestamp_fits(2) [OF now] over_Nil)
  then have "message (entry_of long_call) = take 1024 (replicate 1025 (CHR ''x''))"
    using strncpy_overlong [of 1024 "replicate 1025 (CHR ''x'')" "replicate 1024 NUL"]
    by (simp add: long_call_def demo_call_def SL_MESSAGE_STRING_LENGTH_def)
  then have m: "message (entry_of long_call) = replicate 1024 (CHR ''x'')" by simp
  show ?thesis
    using len by (simp add: r m terminated_def NUL_def SL_MESSAGE_STRING_LENGTH_def)
qed

text \<open>
  C6. Over any sequence of \<open>SL_Log\<close> and \<open>SL_SetLogLevel\<close> calls, whatever
  the store answers, the rows of the table followed by the rows of the entries that still
  wait in the buffer are the rows there were before, followed by the rows of the accepted
  calls in call order: every flush appends its batch in buffer order, and no row moves
  across a flush. When the teardown reports success, the table itself holds all of them
  in that order. The row of an accepted call holds the label of its level and its line
  number, its message field begins with the message cut at the length of the field, and
  when the texts of the call fit their fields the row is made of the arguments of the
  call. On a store that lets every call through, the accepted calls are all the calls
  that pass the checks and the level gate.
\<close>

theorem order_preserved:
  assumes "session_inv N s" and "run_ops N ops s = (acc, s')"
  shows "table_rows (sqlite s') @ buffered_rows s' =
           table_rows (sqlite s) @ buffered_rows s @ map (\<lambda>a. row_of (entry_of a)) acc \<and>
         (fst (SL_Terminate N s') = SL_RESULT_SUCCESS \<longrightarrow>
            table_rows (sqlite (snd (SL_Terminate N s'))) =
              table_rows (sqlite s) @ buffered_rows s @ map (\<lambda>a. row_of (entry_of a)) acc) \<and>
         (\<forall>a\<in>set acc.
            level_text (entry_of a) = SqlText (level_string (a_level a)) \<and>
            row_of (entry_of a) ! 5 = SqlInt (sint (a_lineNumber a)) \<and>
            (\<forall>m. a_message a = Some m \<longrightarrow>
               take (strlen m) (message (entry_of a)) = take SL_MESSAGE_STRING_LENGTH m) \<and>
            (well_formed a \<longrightarrow> row_of (entry_of a) = call_row a)) \<and>
         (healthy N s \<and> ops = map OpLog calls \<and> (\<forall>a\<in>set calls. accepted s a) \<longrightarrow>
            acc = calls)"
proof -
  note run = run_ops_rows [OF assms]
  have down: "table_rows (sqlite (snd (SL_Terminate N s'))) =
          table_rows (sqlite s') @ buffered_rows s'"
    if "fst (SL_Terminate N s') = SL_RESULT_SUCCESS"
    using SL_Terminate_OK_rows [of N s' "snd (SL_Terminate N s')"] that
    by (cases "SL_Terminate N s'") simp
  have content: "level_text (entry_of a) = SqlText (level_string (a_level a)) \<and>
      row_of (entry_of a) ! 5 = SqlInt (sint (a_lineNumber a)) \<and>
      (\<forall>m. a_message a = Some m \<longrightarrow>
         take (strlen m) (message (entry_of a)) = take SL_MESSAGE_STRING_LENGTH m) \<and>
      (well_formed a \<longrightarrow> row_of (entry_of a) = call_row a)" for a
  proof -
    have "lineNumber (entry_of a) = a_lineNumber a"
      by (simp add: entry_of_def fill_entry_def)
    then have "row_of (entry_of a) ! 5 = SqlInt (sint (a_lineNumber a))"
      by (simp add: row_of_def)
    moreover have "well_formed a \<longrightarrow> row_of (entry_of a) = call_row a"
      by (simp add: row_of_fitting)
    ultimately show ?thesis
      by (simp add: level_text_entry_of message_of_entry)
  qed
  have every: "acc = calls"
    if "healthy N s \<and> ops = map OpLog calls \<and> (\<forall>a\<in>set calls. accepted s a)"
    using healthy_run_ops [of N s calls] that assms(2) by simp
  from run down content every show ?thesis by simp
qed

text \<open>
  C6, on the example: five accepted calls in a session of three slots, so that two
  flushes happen on the way and the teardown makes the third; the table ends with the
  five rows in call order, each made of the arguments of its call.
\<close>

theorem order_preserved_witness:
  "fst (run_ops 3 (map OpLog demo_calls) demo_session) = demo_calls \<and>
   fst (SL_Terminate 3 (snd (run_ops 3 (map OpLog demo_calls) demo_session))) =
     SL_RESULT_SUCCESS \<and>
   table_rows (sqlite (snd (SL_Terminate 3
     (snd (run_ops 3 (map OpLog demo_calls) demo_session))))) =
     [[SqlText ''2022-02-19 10:00:01.000000 UTC'', SqlText ''one'', SqlText ''Info'',
       SqlText ''main.c'', SqlText ''main'', SqlInt 42, SqlText [], SqlText []],
      [SqlText ''2022-02-19 10:00:01.000000 UTC'', SqlText ''two'', SqlText ''Warning'',
       SqlText ''main.c'', SqlText ''main'', SqlInt 42, SqlText [], SqlText []],
      [SqlText ''2022-02-19 10:00:01.000000 UTC'', SqlText ''three'', SqlText ''Error'',
       SqlText ''main.c'', SqlText ''main'', SqlInt 42, SqlText [], SqlText []],
      [SqlText ''2022-02-19 10:00:01.000000 UTC'', SqlText ''four'', SqlText ''None'',
       SqlText ''main.c'', SqlText ''main'', SqlInt 42, SqlText [], SqlText []],
      [SqlText ''2022-02-19 10:00:01.000000 UTC'', SqlText ''five'', SqlText ''Info'',
       SqlText ''main.c'', SqlText ''main'', SqlInt 42, SqlText [], SqlText []]]"
proof -
  let ?r = "run_ops 3 (map OpLog demo_calls) demo_session"
  from healthy_run_ops [OF demo_session_healthy demo_calls_accepted]
  have h: "healthy 3 (snd ?r)" by simp
  from healthy_SL_Terminate [OF h] have t: "fst (SL_Terminate 3 (snd ?r)) = SL_RESULT_SUCCESS" .
  have run: "?r = (fst ?r, snd ?r)" by simp
  note ord = order_preserved [OF demo_session_inv(1) run, of demo_calls]
  from ord demo_session_healthy demo_calls_accepted have acc: "fst ?r = demo_calls" by blast
  from ord t have "table_rows (sqlite (snd (SL_Terminate 3 (snd ?r)))) =
      table_rows (sqlite demo_session) @ buffered_rows demo_session @
      map (\<lambda>a. row_of (entry_of a)) (fst ?r)" by blast
  then have tab: "table_rows (sqlite (snd (SL_Terminate 3 (snd ?r)))) =
      map (\<lambda>a. row_of (entry_of a)) demo_calls"
    by (simp add: acc demo_session_vars buffered_rows_def)
  from ord demo_calls_well_formed
  have "\<forall>a\<in>set (fst ?r). row_of (entry_of a) = call_row a" by (simp add: acc)
  then have "map (\<lambda>a. row_of (entry_of a)) demo_calls = map call_row demo_calls"
    by (simp add: acc)
  also have "\<dots> =
     [[SqlText ''2022-02-19 10:00:01.000000 UTC'', SqlText ''one'', SqlText ''Info'',
       SqlText ''main.c'', SqlText ''main'', SqlInt 42, SqlText [], SqlText []],
      [SqlText ''2022-02-19 10:00:01.000000 UTC'', SqlText ''two'', SqlText ''Warning'',
       SqlText ''main.c'', SqlText ''main'', SqlInt 42, SqlText [], SqlText []],
      [SqlText ''2022-02-19 10:00:01.000000 UTC'', SqlText ''three'', SqlText ''Error'',
       SqlText ''main.c'', SqlText ''main'', SqlInt 42, SqlText [], SqlText []],
      [SqlText ''2022-02-19 10:00:01.000000 UTC'', SqlText ''four'', SqlText ''None'',
       SqlText ''main.c'', SqlText ''main'', SqlInt 42, SqlText [], SqlText []],
      [SqlText ''2022-02-19 10:00:01.000000 UTC'', SqlText ''five'', SqlText ''Info'',
       SqlText ''main.c'', SqlText ''main'', SqlInt 42, SqlText [], SqlText []]]"
    by (simp add: demo_calls_def call_row_demo_call level_string_simps level_string_None)
  finally show ?thesis using acc t tab by simp
qed

text \<open>
  C7, at the code \<open>-4\<close> of the reserved range: the lookup index is 4 and the table
  \<open>kSL_ResultStrings\<close> has the indices 0 to 3, so the function reads past the table
  instead of returning a description. The same happens for every code from \<open>-31\<close> to
  \<open>-4\<close>.
\<close>

theorem SL_Result_String_reserved_out_of_bounds:
  "SL_Result_String strerror (- 4) = Inl (OutOfBoundsRead 4)"
  by (simp add: SL_Result_String_def SL_RESULT_SUCCESS_def SL_RESULT_RESERVED_START_def
      SL_RESULT_RESERVED_END_def kSL_ResultStrings_def)

text \<open>
  C8, at a start-up that follows a failed teardown flush. One entry is logged in the
  example session; the teardown flush is refused with code 5, so that \<open>SL_Terminate\<close>
  returns 5, keeps the count at 1 and releases the store. The next \<open>SL_Initialize\<close>
  succeeds and zeroes every slot, but it never writes \<open>gLogEntryCount\<close>: the session
  starts with a count of 1 over zeroed slots.
\<close>

theorem restart_keeps_stale_count:
  "fst failed_teardown = 5 \<and> \<not> gSQLiteDatabase (snd failed_teardown) \<and>
   fst restarted = SL_RESULT_SUCCESS \<and> gSQLiteDatabase (snd restarted) \<and>
   gLogEntryCount (snd restarted) = 1 \<and> gLogEntries (snd restarted) = replicate 3 zero_entry"
proof -
  let ?s1 = "snd (SL_Log_args 3 (demo_calls ! 0) demo_session)"
  have acc: "accepted demo_session (demo_calls ! 0)"
    using demo_calls_accepted by (simp add: demo_calls_def)
  from SL_Log_args_stored(2) [OF demo_session_inv acc] have c1: "gLogEntryCount ?s1 = 1"
    by (simp add: demo_session_vars)
  from healthy_SL_Log_args(1) [OF demo_session_healthy, of "demo_calls ! 0"]
  have db1: "gSQLiteDatabase ?s1" by (simp add: healthy_def)
  have t: "fst failed_teardown = 5" "gLogEntryCount (snd failed_teardown) = 1"
    "\<not> gSQLiteDatabase (snd failed_teardown)" "faults (sqlite (snd failed_teardown)) = []"
    unfolding failed_teardown_def
    using SL_Terminate_begin_fails [of "with_faults [5] ?s1" 5 "[]" 3] c1 db1
    by (simp_all add: with_faults_def SQLITE_OK_def)
  have p: "strlen ''log.sqlite3'' \<noteq> 0" by (simp add: strlen_def)
  from SL_Initialize_OK [OF p t(3,4), of 3 "''2022-02-19 11:00:00.000000 UTC''"] t(1,2,3)
  show ?thesis
    by (simp add: restarted_def SL_Initialize_gLogEntryCount)
qed

text \<open>
  C9 does not hold. When the threshold is set to Error before the start-up,
  \<open>SL_Initialize\<close> succeeds and \<open>SL_GetLogLevel\<close> then returns Error, not Info.
\<close>

theorem threshold_not_reset_counterexample:
  "fst (SL_SetLogLevel eSL_LogLevel_Error (initial_state 3 empty_store)) = SL_RESULT_SUCCESS \<and>
   fst (SL_Initialize 3 ''2022-02-19 10:00:00.000000 UTC'' (Some ''log.sqlite3'')
          (snd (SL_SetLogLevel eSL_LogLevel_Error (initial_state 3 empty_store)))) =
     SL_RESULT_SUCCESS \<and>
   SL_GetLogLevel True
     (snd (SL_Initialize 3 ''2022-02-19 10:00:00.000000 UTC'' (Some ''log.sqlite3'')
             (snd (SL_SetLogLevel eSL_LogLevel_Error (initial_state 3 empty_store))))) =
     (SL_RESULT_SUCCESS, Some eSL_LogLevel_Error) \<and>
   eSL_LogLevel_Error \<noteq> eSL_LogLevel_Info"
proof -
  let ?s = "snd (SL_SetLogLevel eSL_LogLevel_Error (initial_state 3 empty_store))"
  have s: "?s = (initial_state 3 empty_store) \<lparr> gLogLevel := eSL_LogLevel_Error \<rparr>"
    and ok: "fst (SL_SetLogLevel eSL_LogLevel_Error (initial_state 3 empty_store)) =
               SL_RESULT_SUCCESS"
    by (simp_all add: SL_SetLogLevel_def eSL_LogLevel_Error_def eSL_LogLevel_Diagnostic_def
        eSL_LogLevel_None_def)
  have "strlen ''log.sqlite3'' \<noteq> 0" "\<not> gSQLiteDatabase ?s" "faults (sqlite ?s) = []"
    by (simp_all add: s strlen_def) (simp_all add: initial_state_def empty_store_def)
  moreover have "gLogLevel ?s = eSL_LogLevel_Error" by (simp add: s)
  moreover have "eSL_LogLevel_Error \<noteq> eSL_LogLevel_Info"
    by (simp add: eSL_LogLevel_Error_def eSL_LogLevel_Info_def)
  ultimately show ?thesis
    using SL_Initialize_OK(1) [of "''log.sqlite3''" ?s 3 "''2022-02-19 10:00:00.000000 UTC''"] ok
    by (simp add: SL_GetLogLevel_def SL_Initialize_gLogLevel)
qed

text \<open>
  C9, amended. \<open>SL_Initialize\<close> never writes the threshold: after it,
  \<open>SL_GetLogLevel\<close> returns what it returned before the call. The threshold is Info
  from program start on, so a start-up that no successful \<open>SL_SetLogLevel\<close> precedes
  finds Info.
\<close>

theorem threshold_survives_initialize:
  "SL_GetLogLevel out (snd (SL_Initialize N now path s)) = SL_GetLogLevel out s \<and>
   SL_GetLogLevel True (snd (SL_Initialize N now path (initial_state N db))) =
     (SL_RESULT_SUCCESS, Some eSL_LogLevel_Info)"
proof -
  have kept: "gLogLevel (snd (SL_Initialize N now path s')) = gLogLevel s'" for s'
    by (rule SL_Initialize_gLogLevel)
  have "SL_GetLogLevel out (snd (SL_Initialize N now path s)) = SL_GetLogLevel out s"
    by (simp add: SL_GetLogLevel_def kept)
  moreover have "gLogLevel (initial_state N db) = eSL_LogLevel_Info"
    by (simp add: initial_state_def)
  then have "SL_GetLogLevel True (snd (SL_Initialize N now path (initial_state N db))) =
      (SL_RESULT_SUCCESS, Some eSL_LogLevel_Info)"
    by (simp add: SL_GetLogLevel_def kept)
  ultimately show ?thesis by simp
qed

theorem threshold_survives_initialize_witness:
  "SL_GetLogLevel True demo_session = (SL_RESULT_SUCCESS, Some eSL_LogLevel_Info)"
  using threshold_survives_initialize [of True 3 "''2022-02-19 10:00:00.000000 UTC''"
      "Some ''log.sqlite3''" "initial_state 3 empty_store" empty_store]
  unfolding demo_session_def by blast

text \<open>
  C10. \<open>SL_Terminate\<close> on an initialised session always ends with both
  \<open>gInsertStatement\<close> and \<open>gSQLiteDatabase\<close> NULL. When entries wait in the
  buffer, its result is the result of the batch commit, and the calls on the store are,
  in this order: the BEGIN of the flush, the rest of the flush, the finalize of the insert
  statement when there is one, and the close; when the result is success, the table has
  grown by the rows of the waiting entries, in buffer order, and the buffer is cleared,
  with the count at 0 and every slot zeroed. With an empty buffer it only finalizes and
  closes, and returns success. When it returns a failure the buffer and the table are as
  they were.
\<close>

theorem teardown_releases_store:
  assumes "gSQLiteDatabase s"
  shows "\<not> gSQLiteDatabase (snd (SL_Terminate N s)) \<and>
         \<not> gInsertStatement (snd (SL_Terminate N s)) \<and>
         (0 < gLogEntryCount s \<longrightarrow>
            fst (SL_Terminate N s) = fst (SL_ProcessTransaction s) \<and>
            (\<exists>t. trace (sqlite (snd (SL_Terminate N s))) =
                   trace (sqlite s) @ ExecBegin # t @
                   (if gInsertStatement s then [Finalize] else []) @ [CloseV2] \<and>
                 ExecBegin \<notin> set t) \<and>
            (fst (SL_Terminate N s) = SL_RESULT_SUCCESS \<longrightarrow>
               table_rows (sqlite (snd (SL_Terminate N s))) =
                 table_rows (sqlite s) @ buffered_rows s \<and>
               gLogEntryCount (snd (SL_Terminate N s)) = 0 \<and>
               gLogEntries (snd (SL_Terminate N s)) = replicate N zero_entry)) \<and>
         (gLogEntryCount s = 0 \<longrightarrow>
            fst (SL_Terminate N s) = SL_RESULT_SUCCESS \<and>
            trace (sqlite (snd (SL_Terminate N s))) =
              trace (sqlite s) @ (if gInsertStatement s then [Finalize] else []) @ [CloseV2]) \<and>
         (fst (SL_Terminate N s) \<noteq> SL_RESULT_SUCCESS \<longrightarrow>
            gLogEntryCount (snd (SL_Terminate N s)) = gLogEntryCount s \<and>
            gLogEntries (snd (SL_Terminate N s)) = gLogEntries s \<and>
            table_rows (sqlite (snd (SL_Terminate N s))) = table_rows (sqlite s))"
proof -
  obtain r1 s1 where pt: "SL_ProcessTransaction s = (r1, s1)"
    by (cases "SL_ProcessTransaction s")
  from SL_ProcessTransaction_vars [of s] pt have s1: "s1 = s \<lparr> sqlite := sqlite s1 \<rparr>" by simp
  then have st1: "gInsertStatement s1 = gInsertStatement s"
    and c1: "gLogEntryCount s1 = gLogEntryCount s" and e1: "gLogEntries s1 = gLogEntries s"
    by (metis sl_state.select_convs sl_state.surjective sl_state.update_convs)+
  from SL_ProcessTransaction_trace [of s] pt obtain t where
    t: "trace (sqlite s1) = trace (sqlite s) @ ExecBegin # t" "ExecBegin \<notin> set t" by auto
  have kept: "table_rows (sqlite (snd (SL_Terminate N s))) = table_rows (sqlite s)"
    if "fst (SL_Terminate N s) \<noteq> SL_RESULT_SUCCESS"
    using that by (rule SL_Terminate_fail_rows [OF assms])
  show ?thesis
  proof (cases "0 < gLogEntryCount s")
    case False
    with assms show ?thesis
      by (simp add: SL_Terminate_def Let_def close_finalize_simps)
  next
    case True
    have "trace (sqlite (snd (SL_Terminate N s))) =
            trace (sqlite s1) @ (if gInsertStatement s then [Finalize] else []) @ [CloseV2]"
      using assms True pt st1
      by (simp add: SL_Terminate_def Let_def close_finalize_simps memset_entries_def)
    with t have calls: "\<exists>t. trace (sqlite (snd (SL_Terminate N s))) =
                   trace (sqlite s) @ ExecBegin # t @
                   (if gInsertStatement s then [Finalize] else []) @ [CloseV2] \<and>
                 ExecBegin \<notin> set t" by auto
    have flushed: "table_rows (sqlite (snd (SL_Terminate N s))) =
                 table_rows (sqlite s) @ buffered_rows s \<and>
               gLogEntryCount (snd (SL_Terminate N s)) = 0 \<and>
               gLogEntries (snd (SL_Terminate N s)) = replicate N zero_entry"
      if ok: "fst (SL_Terminate N s) = SL_RESULT_SUCCESS"
    proof -
      from ok have "SL_Terminate N s = (SL_RESULT_SUCCESS, snd (SL_Terminate N s))"
        by (cases "SL_Terminate N s") simp
      from SL_Terminate_OK_rows [OF this] SL_Terminate_OK_buffer [OF assms True ok]
      show ?thesis by simp
    qed
    from assms True pt st1 c1 e1
    have "\<not> gSQLiteDatabase (snd (SL_Terminate N s))"
      and "\<not> gInsertStatement (snd (SL_Terminate N s))"
      and "fst (SL_Terminate N s) = fst (SL_ProcessTransaction s)"
      and "fst (SL_Terminate N s) \<noteq> SL_RESULT_SUCCESS \<longrightarrow>
            gLogEntryCount (snd (SL_Terminate N s)) = gLogEntryCount s \<and>
            gLogEntries (snd (SL_Terminate N s)) = gLogEntries s"
      by (simp_all add: SL_Terminate_def Let_def memset_entries_def)
    with True calls flushed kept show ?thesis by simp
  qed
qed

text \<open>
  C10, on the example with two buffered entries. On a store that lets every call
  through, the teardown returns success, releases the statement and the store, puts the
  rows of the two entries in the table and clears the buffer. On a store that refuses
  the BEGIN with code 5, the teardown returns 5, releases the statement and the store
  all the same, and keeps the two entries.
\<close>

theorem teardown_releases_store_witness:
  "fst (SL_Terminate 3 full_session) = SL_RESULT_SUCCESS \<and>
   \<not> gSQLiteDatabase (snd (SL_Terminate 3 full_session)) \<and>
   \<not> gInsertStatement (snd (SL_Terminate 3 full_session)) \<and>
   table_rows (sqlite (snd (SL_Terminate 3 full_session))) =
     [[SqlText ''2022-02-19 10:00:01.000000 UTC'', SqlText ''one'', SqlText ''Info'',
       SqlText ''main.c'', SqlText ''main'', SqlInt 42, SqlText [], SqlText []],
      [SqlText ''2022-02-19 10:00:01.000000 UTC'', SqlText ''two'', SqlText ''Warning'',
       SqlText ''main.c'', SqlText ''main'', SqlInt 42, SqlText [], SqlText []]] \<and>
   gLogEntryCount (snd (SL_Terminate 3 full_session)) = 0 \<and>
   gLogEntries (snd (SL_Terminate 3 full_session)) = replicate 3 zero_entry \<and>
   fst (SL_Terminate 3 (with_faults [5] full_session)) = 5 \<and>
   \<not> gSQLiteDatabase (snd (SL_Terminate 3 (with_faults [5] full_session))) \<and>
   \<not> gInsertStatement (snd (SL_Terminate 3 (with_faults [5] full_session))) \<and>
   gLogEntryCount (snd (SL_Terminate 3 (with_faults [5] full_session))) = 2 \<and>
   table_rows (sqlite (snd (SL_Terminate 3 (with_faults [5] full_session)))) = []"
proof -
  have db: "gSQLiteDatabase full_session" by (rule full_session_vars)
  have ok: "fst (SL_Terminate 3 full_session) = SL_RESULT_SUCCESS"
    by (rule healthy_SL_Terminate [OF full_session_healthy])
  have wf: "well_formed (demo_calls ! 0)" "well_formed (demo_calls ! 1)"
    using demo_calls_well_formed by (simp_all add: demo_calls_def)
  have "buffered_rows full_session =
      [row_of (entry_of (demo_calls ! 0)), row_of (entry_of (demo_calls ! 1))]"
    by (simp add: buffered_rows_def full_session_vars demo_calls_def)
  also have "\<dots> = [call_row (demo_calls ! 0), call_row (demo_calls ! 1)]"
    by (simp only: row_of_fitting [OF wf(1)] row_of_fitting [OF wf(2)])
  also have "\<dots> =
     [[SqlText ''2022-02-19 10:00:01.000000 UTC'', SqlText ''one'', SqlText ''Info'',
       SqlText ''main.c'', SqlText ''main'', SqlInt 42, SqlText [], SqlText []],
      [SqlText ''2022-02-19 10:00:01.000000 UTC'', SqlText ''two'', SqlText ''Warning'',
       SqlText ''main.c'', SqlText ''main'', SqlInt 42, SqlText [], SqlText []]]"
    by (simp add: demo_calls_def call_row_demo_call level_string_simps)
  finally have rows: "buffered_rows full_session =
     [[SqlText ''2022-02-19 10:00:01.000000 UTC'', SqlText ''one'', SqlText ''Info'',
       SqlText ''main.c'', SqlText ''main'', SqlInt 42, SqlText [], SqlText []],
      [SqlText ''2022-02-19 10:00:01.000000 UTC'', SqlText ''two'', SqlText ''Warning'',
       SqlText ''main.c'', SqlText ''main'', SqlInt 42, SqlText [], SqlText []]]" .
  from teardown_releases_store [OF db, of 3] ok
  have good: "\<not> gSQLiteDatabase (snd (SL_Terminate 3 full_session))"
    "\<not> gInsertStatement (snd (SL_Terminate 3 full_session))"
    "table_rows (sqlite (snd (SL_Terminate 3 full_session))) = buffered_rows full_session"
    "gLogEntryCount (snd (SL_Terminate 3 full_session)) = 0"
    "gLogEntries (snd (SL_Terminate 3 full_session)) = replicate 3 zero_entry"
    by (simp_all add: full_session_vars)
  have db': "gSQLiteDatabase (with_faults [5] full_session)"
    by (simp add: with_faults_def full_session_vars)
  have bad: "fst (SL_Terminate 3 (with_faults [5] full_session)) = 5"
    using SL_Terminate_begin_fails(1) [of "with_faults [5] full_session" 5 "[]" 3]
    by (simp add: with_faults_def full_session_vars SQLITE_OK_def)
  with teardown_releases_store [OF db', of 3]
  have "\<not> gSQLiteDatabase (snd (SL_Terminate 3 (with_faults [5] full_session)))"
    "\<not> gInsertStatement (snd (SL_Terminate 3 (with_faults [5] full_session)))"
    "gLogEntryCount (snd (SL_Terminate 3 (with_faults [5] full_session))) = 2"
    "table_rows (sqlite (snd (SL_Terminate 3 (with_faults [5] full_session)))) = []"
    by (simp_all add: with_faults_def full_session_vars SL_RESULT_SUCCESS_def)
  with ok good bad show ?thesis by (simp add: rows)
qed

end
